theory Spec2Isabelle
  imports Main "HOL-Library.Word" "HOL-Library.Sublist"
begin

unbundle bit_operations_syntax

section \<open>JavaScript strings and values\<close>

text \<open>
  The program is \<^verbatim>\<open>cli/ssh-key-manager.js\<close> (class \<^verbatim>\<open>SSHKeyManager\<close>). A JavaScript string
  is a sequence of 16-bit code units, a \<^verbatim>\<open>Buffer\<close> a sequence of bytes. String literals of
  the source are written with \<open>js\<close>.
\<close>

type_synonym byte = "8 word"
type_synonym jsstring = "16 word list"

definition js :: "string \<Rightarrow> jsstring" where
  "js s = map of_char s"

text \<open>
  The values that the fields of a key object take: a string, \<^verbatim>\<open>null\<close>, or
  \<^verbatim>\<open>undefined\<close> (the field is absent). \<open>truthy\<close> is JavaScript's conversion to boolean,
  \<open>js_or\<close> is the operator \<^verbatim>\<open>||\<close>. Equality of two such values is \<^verbatim>\<open>===\<close>.
\<close>

datatype jsval = Undefined | Null | Str jsstring

fun truthy :: "jsval \<Rightarrow> bool" where
  "truthy (Str s) = (s \<noteq> [])"
| "truthy Null = False"
| "truthy Undefined = False"

definition js_or :: "jsval \<Rightarrow> jsval \<Rightarrow> jsval" where
  "js_or a b = (if truthy a then a else b)"

text \<open>\<^verbatim>\<open>String.prototype.startsWith\<close>, \<^verbatim>\<open>includes\<close>, \<^verbatim>\<open>endsWith\<close>, \<^verbatim>\<open>trim\<close>, \<^verbatim>\<open>split\<close>.\<close>

fun startsWith :: "'a list \<Rightarrow> 'a list \<Rightarrow> bool" where
  "startsWith s [] = True"
| "startsWith [] (p # ps) = False"
| "startsWith (c # cs) (p # ps) = (c = p \<and> startsWith cs ps)"

fun includes_js :: "'a list \<Rightarrow> 'a list \<Rightarrow> bool" where
  "includes_js [] m = (m = [])"
| "includes_js (c # cs) m = (startsWith (c # cs) m \<or> includes_js cs m)"

definition endsWith :: "'a list \<Rightarrow> 'a list \<Rightarrow> bool" where
  "endsWith s x = (length x \<le> length s \<and> drop (length s - length x) s = x)"

definition is_js_whitespace :: "16 word \<Rightarrow> bool" where
  "is_js_whitespace c =
     (c \<in> {0x09, 0x0A, 0x0B, 0x0C, 0x0D, 0x20, 0xA0, 0x1680, 0x2028, 0x2029, 0x202F, 0x205F,
            0x3000, 0xFEFF}
      \<or> (0x2000 \<le> c \<and> c \<le> 0x200A))"

definition trim :: "jsstring \<Rightarrow> jsstring" where
  "trim s = rev (dropWhile is_js_whitespace (rev (dropWhile is_js_whitespace s)))"

fun split_on :: "'a \<Rightarrow> 'a list \<Rightarrow> 'a list list" where
  "split_on d [] = [[]]"
| "split_on d (c # cs) =
     (if c = d then [] # split_on d cs
      else (case split_on d cs of [] \<Rightarrow> [[c]] | p # ps \<Rightarrow> (c # p) # ps))"

text \<open>\<^verbatim>\<open>Array.prototype.findIndex\<close>: the first index whose element satisfies the predicate;
  \<open>None\<close> stands for \<^verbatim>\<open>-1\<close>.\<close>

fun findIndex :: "('a \<Rightarrow> bool) \<Rightarrow> 'a list \<Rightarrow> nat option" where
  "findIndex P [] = None"
| "findIndex P (x # xs) = (if P x then Some 0 else map_option Suc (findIndex P xs))"

section \<open>Encodings of Node.js: UTF-8 and hexadecimal\<close>

text \<open>
  \<^verbatim>\<open>cipher.update(data, 'utf8', 'hex')\<close> and \<^verbatim>\<open>hash.update(string)\<close> turn a string into its
  UTF-8 bytes. A surrogate pair is one code point of four bytes; a surrogate that is not
  part of a pair is written as U+FFFD (\<^verbatim>\<open>EF BF BD\<close>).
\<close>

definition is_high_surrogate :: "16 word \<Rightarrow> bool" where
  "is_high_surrogate c = (0xD800 \<le> c \<and> c \<le> 0xDBFF)"

definition is_low_surrogate :: "16 word \<Rightarrow> bool" where
  "is_low_surrogate c = (0xDC00 \<le> c \<and> c \<le> 0xDFFF)"

definition utf8_of_cp :: "nat \<Rightarrow> byte list" where
  "utf8_of_cp n =
     (if n < 0x80 then [of_nat n]
      else if n < 0x800 then [of_nat (0xC0 + n div 64), of_nat (0x80 + n mod 64)]
      else if n < 0x10000 then
        [of_nat (0xE0 + n div 4096), of_nat (0x80 + n div 64 mod 64), of_nat (0x80 + n mod 64)]
      else
        [of_nat (0xF0 + n div 262144), of_nat (0x80 + n div 4096 mod 64),
         of_nat (0x80 + n div 64 mod 64), of_nat (0x80 + n mod 64)])"

definition cp_of_pair :: "16 word \<Rightarrow> 16 word \<Rightarrow> nat" where
  "cp_of_pair hi lo = 0x10000 + (unat hi - 0xD800) * 1024 + (unat lo - 0xDC00)"

definition utf16_of_cp :: "nat \<Rightarrow> jsstring" where
  "utf16_of_cp n =
     (if n < 0x10000 then [of_nat n]
      else [of_nat (0xD800 + (n - 0x10000) div 1024), of_nat (0xDC00 + (n - 0x10000) mod 1024)])"

fun utf8_encode :: "jsstring \<Rightarrow> byte list" where
  "utf8_encode [] = []"
| "utf8_encode (c # cs) =
     (if is_high_surrogate c then
        (case cs of
           [] \<Rightarrow> [0xEF, 0xBF, 0xBD]
         | d # ds \<Rightarrow>
             if is_low_surrogate d then utf8_of_cp (cp_of_pair c d) @ utf8_encode ds
             else [0xEF, 0xBF, 0xBD] @ utf8_encode cs)
      else if is_low_surrogate c then [0xEF, 0xBF, 0xBD] @ utf8_encode cs
      else utf8_of_cp (unat c) @ utf8_encode cs)"

text \<open>
  A string is well formed when every surrogate code unit is part of a pair (high, then low).
\<close>

fun well_formed :: "jsstring \<Rightarrow> bool" where
  "well_formed [] = True"
| "well_formed (c # cs) =
     (if is_high_surrogate c then
        (case cs of [] \<Rightarrow> False | d # ds \<Rightarrow> is_low_surrogate d \<and> well_formed ds)
      else \<not> is_low_surrogate c \<and> well_formed cs)"

text \<open>
  \<^verbatim>\<open>decipher.update(hex, 'hex', 'utf8') + decipher.final('utf8')\<close> decodes the plaintext bytes
  as UTF-8; the string decoder carries an incomplete sequence from \<^verbatim>\<open>update\<close> to
  \<^verbatim>\<open>final\<close>, so the result is the decoding of all the bytes. Bytes that start no valid
  sequence, and sequences cut short, become U+FFFD; decoding resumes at the byte that broke
  the sequence.
\<close>

definition in_range :: "nat \<Rightarrow> nat \<Rightarrow> byte \<Rightarrow> bool" where
  "in_range lo hi b = (lo \<le> unat b \<and> unat b \<le> hi)"

definition cont_bits :: "byte \<Rightarrow> nat" where
  "cont_bits b = unat b - 0x80"

fun utf8_decode :: "byte list \<Rightarrow> jsstring" where
  "utf8_decode [] = []"
| "utf8_decode (b # bs) =
     (let n = unat b in
      if n < 0x80 then of_nat n # utf8_decode bs
      else if 0xC2 \<le> n \<and> n \<le> 0xDF then
        (case bs of
           [] \<Rightarrow> [0xFFFD]
         | b1 # r1 \<Rightarrow>
             if in_range 0x80 0xBF b1
             then utf16_of_cp ((n - 0xC0) * 64 + cont_bits b1) @ utf8_decode r1
             else 0xFFFD # utf8_decode bs)
      else if 0xE0 \<le> n \<and> n \<le> 0xEF then
        (case bs of
           [] \<Rightarrow> [0xFFFD]
         | b1 # r1 \<Rightarrow>
             if in_range (if n = 0xE0 then 0xA0 else 0x80) (if n = 0xED then 0x9F else 0xBF) b1
             then (case r1 of
                     [] \<Rightarrow> [0xFFFD]
                   | b2 # r2 \<Rightarrow>
                       if in_range 0x80 0xBF b2
                       then utf16_of_cp ((n - 0xE0) * 4096 + cont_bits b1 * 64 + cont_bits b2)
                              @ utf8_decode r2
                       else 0xFFFD # utf8_decode r1)
             else 0xFFFD # utf8_decode bs)
      else if 0xF0 \<le> n \<and> n \<le> 0xF4 then
        (case bs of
           [] \<Rightarrow> [0xFFFD]
         | b1 # r1 \<Rightarrow>
             if in_range (if n = 0xF0 then 0x90 else 0x80) (if n = 0xF4 then 0x8F else 0xBF) b1
             then (case r1 of
                     [] \<Rightarrow> [0xFFFD]
                   | b2 # r2 \<Rightarrow>
                       if in_range 0x80 0xBF b2
                       then (case r2 of
                               [] \<Rightarrow> [0xFFFD]
                             | b3 # r3 \<Rightarrow>
                                 if in_range 0x80 0xBF b3
                                 then utf16_of_cp ((n - 0xF0) * 262144 + cont_bits b1 * 4096
                                                   + cont_bits b2 * 64 + cont_bits b3)
                                        @ utf8_decode r3
                                 else 0xFFFD # utf8_decode r2)
                       else 0xFFFD # utf8_decode r1)
             else 0xFFFD # utf8_decode bs)
      else 0xFFFD # utf8_decode bs)"

text \<open>
  \<^verbatim>\<open>buf.toString('hex')\<close> writes two lower-case digits per byte. \<^verbatim>\<open>Buffer.from(s, 'hex')\<close>
  reads pairs of digits of either case and stops at the first pair that is not
  hexadecimal; a single trailing character is dropped.
\<close>

definition hex_digit :: "nat \<Rightarrow> 16 word" where
  "hex_digit n = (if n < 10 then of_nat (0x30 + n) else of_nat (0x57 + n))"

definition toHex :: "byte list \<Rightarrow> jsstring" where
  "toHex bs = concat (map (\<lambda>b. [hex_digit (unat b div 16), hex_digit (unat b mod 16)]) bs)"

definition hex_value :: "16 word \<Rightarrow> nat option" where
  "hex_value c =
     (let n = unat c in
      if 0x30 \<le> n \<and> n \<le> 0x39 then Some (n - 0x30)
      else if 0x61 \<le> n \<and> n \<le> 0x66 then Some (n - 0x57)
      else if 0x41 \<le> n \<and> n \<le> 0x46 then Some (n - 0x37)
      else None)"

fun fromHex :: "jsstring \<Rightarrow> byte list" where
  "fromHex (a # b # r) =
     (case hex_value a of
        None \<Rightarrow> []
      | Some x \<Rightarrow> (case hex_value b of None \<Rightarrow> [] | Some y \<Rightarrow> of_nat (x * 16 + y) # fromHex r))"
| "fromHex [a] = []"
| "fromHex [] = []"

section \<open>The cipher \<^verbatim>\<open>aes-256-cbc\<close>\<close>

text \<open>
  \<^verbatim>\<open>crypto.createCipheriv('aes-256-cbc', key, iv)\<close>: cipher block chaining over 16-byte
  blocks with PKCS#7 padding. The block cipher itself (AES under a 32-byte key) belongs to
  Node.js and is a parameter: \<open>E\<close> encrypts one block, \<open>D\<close> decrypts one.
\<close>

definition pkcs7_pad :: "byte list \<Rightarrow> byte list" where
  "pkcs7_pad bs = (let n = 16 - length bs mod 16 in bs @ replicate n (of_nat n))"

definition pkcs7_unpad :: "byte list \<Rightarrow> byte list option" where
  "pkcs7_unpad bs =
     (if bs = [] then None
      else let n = unat (last bs) in
        if n = 0 \<or> 16 < n \<or> length bs < n then None
        else if list_all (\<lambda>b. b = last bs) (drop (length bs - n) bs)
             then Some (take (length bs - n) bs)
             else None)"

function blocks16 :: "'a list \<Rightarrow> 'a list list" where
  "blocks16 bs = (if bs = [] then [] else take 16 bs # blocks16 (drop 16 bs))"
  by pat_completeness auto
termination
  by (relation "measure length") auto

declare blocks16.simps [simp del]

definition xor_bytes :: "byte list \<Rightarrow> byte list \<Rightarrow> byte list" where
  "xor_bytes a b = map2 (XOR) a b"

fun cbc_encrypt :: "(byte list \<Rightarrow> byte list) \<Rightarrow> byte list \<Rightarrow> byte list list \<Rightarrow> byte list list" where
  "cbc_encrypt E prev [] = []"
| "cbc_encrypt E prev (p # ps) = (let c = E (xor_bytes p prev) in c # cbc_encrypt E c ps)"

fun cbc_decrypt :: "(byte list \<Rightarrow> byte list) \<Rightarrow> byte list \<Rightarrow> byte list list \<Rightarrow> byte list list" where
  "cbc_decrypt D prev [] = []"
| "cbc_decrypt D prev (c # cs) = xor_bytes (D c) prev # cbc_decrypt D c cs"

section \<open>The environment of the process\<close>

text \<open>
  What Node.js and the machine supply. Each is a parameter of the model: the hash and the
  block cipher of \<^verbatim>\<open>crypto\<close>, its random sources, the clock, \<^verbatim>\<open>JSON\<close>, \<^verbatim>\<open>path.join\<close>, the
  answers to the prompts of \<^verbatim>\<open>inquirer\<close>, and which file-system calls fail. The calls that
  give a new value each time (\<^verbatim>\<open>randomBytes\<close>, \<^verbatim>\<open>randomUUID\<close>, \<^verbatim>\<open>new Date()\<close>) take the
  number of such calls made so far.
\<close>

datatype js_error = FsError | CryptoError | SyntaxError | TypeError

record ssh_key =
  id' :: jsval
  name :: jsval
  tag :: jsval
  key :: jsval
  key_type :: jsval
  created :: jsval
  last_modified :: jsval

text \<open>
  A parsed JSON document, as far as the program looks into it: an array of key objects (what
  \<^verbatim>\<open>saveKeys\<close> stores), an object with an array \<^verbatim>\<open>keys\<close> (an export document), any other
  object (read as one key object), \<^verbatim>\<open>null\<close>, or another primitive, of which only the
  truth value matters.
\<close>

datatype json_doc =
    KeyArray "ssh_key list"
  | ExportDoc "ssh_key list"
  | KeyObject ssh_key
  | JNull
  | JScalar bool

fun truthy_doc :: "json_doc \<Rightarrow> bool" where
  "truthy_doc JNull = False"
| "truthy_doc (JScalar b) = b"
| "truthy_doc (KeyArray ks) = True"
| "truthy_doc (ExportDoc ks) = True"
| "truthy_doc (KeyObject k) = True"

record scanned_key =
  scan_name :: jsstring
  scan_path :: jsstring
  scan_content :: jsstring
  scan_type :: jsstring

record node_crypto =
  sha256 :: "byte list \<Rightarrow> byte list"
  aes_encrypt_block :: "byte list \<Rightarrow> byte list \<Rightarrow> byte list"
  aes_decrypt_block :: "byte list \<Rightarrow> byte list \<Rightarrow> byte list"
  randomBytes :: "nat \<Rightarrow> nat \<Rightarrow> byte list"
  randomUUID :: "nat \<Rightarrow> jsstring"

record node_os =
  hostname :: jsstring
  homedir :: jsstring
  cwd :: jsstring
  path_join :: "jsstring \<Rightarrow> jsstring \<Rightarrow> jsstring"
  is_win32 :: bool
  env_APPDATA :: jsstring
  env_LOCALAPPDATA :: jsstring
  date_now :: "nat \<Rightarrow> jsstring"

record node_disk =
  read_fails :: "jsstring \<Rightarrow> bool"
  write_fails :: "jsstring \<Rightarrow> jsstring \<Rightarrow> jsstring option option"
  mkdirp_fails :: "jsstring \<Rightarrow> bool"
  readdir_result :: "jsstring \<Rightarrow> js_error + jsstring list"

record node_json =
  JSON_stringify :: "json_doc \<Rightarrow> jsstring"
  JSON_parse :: "jsstring \<Rightarrow> js_error + json_doc"

record prompts =
  prompt_edit :: "ssh_key \<Rightarrow> jsstring \<times> jsstring \<times> bool"
  prompt_edit_content :: "ssh_key \<Rightarrow> jsstring"
  prompt_confirm_delete :: "ssh_key \<Rightarrow> bool"
  prompt_select_keys :: "scanned_key list \<Rightarrow> scanned_key list"

record world =
  crypto :: node_crypto
  os :: node_os
  disk :: node_disk
  json :: node_json
  inquirer :: prompts

section \<open>The state of the manager\<close>

text \<open>
  The fields of an \<^verbatim>\<open>SSHKeyManager\<close>, its two configuration entries, the files and
  directories it can see, what it has printed, and the calls it has made to the file system
  (\<open>fs_log\<close>, a record of effects that the program itself does not read).
  \<open>keysCache = None\<close> is the initial \<^verbatim>\<open>this.keysCache = null\<close>.

  The array that \<^verbatim>\<open>loadKeys\<close> returns is the array held in \<^verbatim>\<open>this.keysCache\<close>, the same
  object: \<^verbatim>\<open>push\<close>, \<^verbatim>\<open>splice\<close> and \<^verbatim>\<open>Object.assign\<close> on it change the cache at once. The
  model therefore writes these updates to \<open>keysCache\<close>.
\<close>

datatype fs_call =
    ExistsSync jsstring
  | MkdirpSync jsstring
  | ReadFile jsstring
  | WriteFile jsstring
  | Readdir jsstring

datatype console_line =
    ErrorLoadingKeys js_error
  | KeyNotFound jsstring
  | KeyUpdated jsval
  | ErrorUpdatingKey js_error
  | DeletionCancelled
  | KeyDeleted jsval
  | ErrorDeletingKey js_error
  | ImportedKeys nat
  | SkippedDuplicates nat
  | ErrorImportingFromFile js_error
  | NoPublicKeyFiles
  | SkippedFile jsstring js_error
  | NoKeysFound
  | NoKeysSelected

record manager =
  config_keysFilePath :: jsval
  config_encryptionPassword :: jsval
  machineKey :: "byte list"
  passwordKey :: "byte list option"
  keysCache :: "json_doc option"
  files :: "jsstring \<Rightarrow> jsstring option"
  dirs :: "jsstring \<Rightarrow> bool"
  console :: "console_line list"
  fs_log :: "fs_call list"
  tick :: nat

text \<open>The number of calls of \<^verbatim>\<open>fs.writeFile\<close> made so far.\<close>

fun is_WriteFile :: "fs_call \<Rightarrow> bool" where
  "is_WriteFile (WriteFile p) = True"
| "is_WriteFile (ExistsSync p) = False"
| "is_WriteFile (MkdirpSync p) = False"
| "is_WriteFile (ReadFile p) = False"
| "is_WriteFile (Readdir p) = False"

definition writes :: "manager \<Rightarrow> nat" where
  "writes s = length (filter is_WriteFile (fs_log s))"

definition print :: "console_line \<Rightarrow> manager \<Rightarrow> manager" where
  "print l s = s\<lparr>console := console s @ [l]\<rparr>"

definition existsSync :: "manager \<Rightarrow> jsstring \<Rightarrow> bool \<times> manager" where
  "existsSync s p = (files s p \<noteq> None \<or> dirs s p, s\<lparr>fs_log := fs_log s @ [ExistsSync p]\<rparr>)"

definition mkdirpSync :: "world \<Rightarrow> manager \<Rightarrow> jsstring \<Rightarrow> (js_error + unit) \<times> manager" where
  "mkdirpSync w s p =
     (let s' = s\<lparr>fs_log := fs_log s @ [MkdirpSync p]\<rparr> in
      if mkdirp_fails (disk w) p then (Inl FsError, s')
      else (Inr (), s'\<lparr>dirs := (dirs s)(p := True)\<rparr>))"

definition readFile :: "world \<Rightarrow> manager \<Rightarrow> jsstring \<Rightarrow> (js_error + jsstring) \<times> manager" where
  "readFile w s p =
     (let s' = s\<lparr>fs_log := fs_log s @ [ReadFile p]\<rparr> in
      case files s p of
        None \<Rightarrow> (Inl FsError, s')
      | Some c \<Rightarrow> if read_fails (disk w) p then (Inl FsError, s') else (Inr c, s'))"

text \<open>
  \<^verbatim>\<open>fs.writeFile\<close> replaces the file. When it fails, the environment says what is left at
  the path (nothing, the old content, or a partial one).
\<close>

definition writeFile :: "world \<Rightarrow> manager \<Rightarrow> jsstring \<Rightarrow> jsstring \<Rightarrow> (js_error + unit) \<times> manager" where
  "writeFile w s p data =
     (let s' = s\<lparr>fs_log := fs_log s @ [WriteFile p]\<rparr> in
      if dirs s p then (Inl FsError, s')
      else case write_fails (disk w) p data of
        None \<Rightarrow> (Inr (), s'\<lparr>files := (files s)(p \<mapsto> data)\<rparr>)
      | Some left \<Rightarrow> (Inl FsError, s'\<lparr>files := (files s)(p := left)\<rparr>))"

definition readdir :: "world \<Rightarrow> manager \<Rightarrow> jsstring \<Rightarrow> (js_error + jsstring list) \<times> manager" where
  "readdir w s p = (readdir_result (disk w) p, s\<lparr>fs_log := fs_log s @ [Readdir p]\<rparr>)"

definition generateId :: "world \<Rightarrow> manager \<Rightarrow> jsstring \<times> manager" where
  "generateId w s = (randomUUID (crypto w) (tick s), s\<lparr>tick := tick s + 1\<rparr>)"

definition new_Date_toISOString :: "world \<Rightarrow> manager \<Rightarrow> jsstring \<times> manager" where
  "new_Date_toISOString w s = (date_now (os w) (tick s), s\<lparr>tick := tick s + 1\<rparr>)"

section \<open>Key derivation\<close>

text \<open>
  \<^verbatim>\<open>getMachineId\<close>: the host name unless it is empty or \<^verbatim>\<open>localhost\<close>. The branch for
  macOS calls \<^verbatim>\<open>require\<close>, which an ES module (\<^verbatim>\<open>"type": "module"\<close>) does not have; the
  error is caught there, and the function goes on to \<^verbatim>\<open>'unknown-machine'\<close>.
\<close>

definition getMachineId :: "node_os \<Rightarrow> jsstring" where
  "getMachineId e =
     (if hostname e \<noteq> [] \<and> hostname e \<noteq> js ''localhost'' then hostname e
      else js ''unknown-machine'')"

definition getMachineKey :: "world \<Rightarrow> byte list" where
  "getMachineKey w =
     sha256 (crypto w) (utf8_encode (getMachineId (os w) @ js ''ssh-kim-machine-key''))"

definition deriveKeyFromPassword :: "world \<Rightarrow> jsstring \<Rightarrow> byte list" where
  "deriveKeyFromPassword w password =
     sha256 (crypto w) (utf8_encode (password @ js ''ssh-kim-password-salt''))"

text \<open>The constructor: \<open>kp\<close> and \<open>pw\<close> are the stored configuration entries.\<close>

definition new_SSHKeyManager ::
  "world \<Rightarrow> jsval \<Rightarrow> jsval \<Rightarrow> (jsstring \<Rightarrow> jsstring option) \<Rightarrow> (jsstring \<Rightarrow> bool) \<Rightarrow> manager" where
  "new_SSHKeyManager w kp pw fs ds =
     \<lparr>config_keysFilePath = kp, config_encryptionPassword = pw,
      machineKey = getMachineKey w,
      passwordKey = (case pw of Str p \<Rightarrow> if p \<noteq> [] then Some (deriveKeyFromPassword w p) else None
                     | _ \<Rightarrow> None),
      keysCache = None, files = fs, dirs = ds, console = [], fs_log = [], tick = 0\<rparr>"

text \<open>\<^verbatim>\<open>this.passwordKey || this.machineKey\<close>: a \<^verbatim>\<open>Buffer\<close> is truthy whatever it holds.\<close>

definition getEncryptionKey :: "manager \<Rightarrow> byte list" where
  "getEncryptionKey s = (case passwordKey s of Some k \<Rightarrow> k | None \<Rightarrow> machineKey s)"

section \<open>The path of the store\<close>

text \<open>The second half of \<^verbatim>\<open>getKeysFilePath\<close>: the default file in \<^verbatim>\<open>data\<close> under the
  working directory, which is created when missing.\<close>

definition default_keys_path :: "world \<Rightarrow> manager \<Rightarrow> (js_error + jsstring) \<times> manager" where
  "default_keys_path w s =
     (let appDataDir = path_join (os w) (cwd (os w)) (js ''data'');
          (ex, s1) = existsSync s appDataDir
      in if \<not> ex then
           (case mkdirpSync w s1 appDataDir of
              (Inl e, s2) \<Rightarrow> (Inl e, s2)
            | (Inr u, s2) \<Rightarrow> (Inr (path_join (os w) appDataDir (js ''ssh_keys.enc'')), s2))
         else (Inr (path_join (os w) appDataDir (js ''ssh_keys.enc'')), s1))"

definition getKeysFilePath :: "world \<Rightarrow> manager \<Rightarrow> (js_error + jsstring) \<times> manager" where
  "getKeysFilePath w s =
     (case config_keysFilePath s of
        Str customPath \<Rightarrow> if customPath \<noteq> [] then (Inr customPath, s) else default_keys_path w s
      | Null \<Rightarrow> default_keys_path w s
      | Undefined \<Rightarrow> default_keys_path w s)"

section \<open>Encryption and decryption of the store\<close>

definition aes_256_cbc_encrypt ::
  "node_crypto \<Rightarrow> byte list \<Rightarrow> byte list \<Rightarrow> byte list \<Rightarrow> js_error + byte list" where
  "aes_256_cbc_encrypt c k iv plain =
     (if length k \<noteq> 32 \<or> length iv \<noteq> 16 then Inl CryptoError
      else Inr (concat (cbc_encrypt (aes_encrypt_block c k) iv (blocks16 (pkcs7_pad plain)))))"

definition aes_256_cbc_decrypt ::
  "node_crypto \<Rightarrow> byte list \<Rightarrow> byte list \<Rightarrow> byte list \<Rightarrow> js_error + byte list" where
  "aes_256_cbc_decrypt c k iv ct =
     (if length k \<noteq> 32 \<or> length iv \<noteq> 16 then Inl CryptoError
      else if ct = [] \<or> length ct mod 16 \<noteq> 0 then Inl CryptoError
      else case pkcs7_unpad (concat (cbc_decrypt (aes_decrypt_block c k) iv (blocks16 ct))) of
             None \<Rightarrow> Inl CryptoError
           | Some plain \<Rightarrow> Inr plain)"

definition encryptData :: "world \<Rightarrow> manager \<Rightarrow> jsstring \<Rightarrow> (js_error + jsstring) \<times> manager" where
  "encryptData w s data =
     (let k = getEncryptionKey s;
          iv = randomBytes (crypto w) (tick s) 16;
          s' = s\<lparr>tick := tick s + 1\<rparr>
      in case aes_256_cbc_encrypt (crypto w) k iv (utf8_encode data) of
           Inl e \<Rightarrow> (Inl e, s')
         | Inr encrypted \<Rightarrow> (Inr (toHex iv @ js '':'' @ toHex encrypted), s'))"

text \<open>
  The steps of \<^verbatim>\<open>decryptData\<close>, which \<^verbatim>\<open>importFromFile\<close> repeats with a key of its own:
  split at the colons, read the first part as the IV, create the decipher (which checks the
  lengths of key and IV), then decrypt the second part, which is \<^verbatim>\<open>undefined\<close> when there is
  no colon.
\<close>

definition decrypt_envelope :: "node_crypto \<Rightarrow> byte list \<Rightarrow> jsstring \<Rightarrow> js_error + jsstring" where
  "decrypt_envelope c k encryptedData =
     (case split_on 0x3A encryptedData of
        [] \<Rightarrow> Inl TypeError
      | p0 # rest \<Rightarrow>
          (let iv = fromHex p0 in
           if length k \<noteq> 32 \<or> length iv \<noteq> 16 then Inl CryptoError
           else case rest of
                  [] \<Rightarrow> Inl TypeError
                | encrypted # others \<Rightarrow>
                    (case aes_256_cbc_decrypt c k iv (fromHex encrypted) of
                       Inl e \<Rightarrow> Inl e
                     | Inr plain \<Rightarrow> Inr (utf8_decode plain))))"

definition decryptData :: "world \<Rightarrow> manager \<Rightarrow> jsstring \<Rightarrow> js_error + jsstring" where
  "decryptData w s encryptedData = decrypt_envelope (crypto w) (getEncryptionKey s) encryptedData"

section \<open>Loading and saving\<close>

definition load_failed :: "js_error \<Rightarrow> manager \<Rightarrow> (js_error + json_doc) \<times> manager" where
  "load_failed e s = (Inr (KeyArray []), (print (ErrorLoadingKeys e) s)\<lparr>keysCache := Some (KeyArray [])\<rparr>)"

text \<open>The \<^verbatim>\<open>try\<close> block of \<^verbatim>\<open>loadKeys\<close>: read the file, decrypt it, parse the result.\<close>

definition read_decrypt_parse ::
  "world \<Rightarrow> manager \<Rightarrow> jsstring \<Rightarrow> (js_error + json_doc) \<times> manager" where
  "read_decrypt_parse w s filePath =
     (case readFile w s filePath of
        (Inl e, s1) \<Rightarrow> (Inl e, s1)
      | (Inr encryptedData, s1) \<Rightarrow>
          (case decryptData w s1 encryptedData of
             Inl e \<Rightarrow> (Inl e, s1)
           | Inr decryptedData \<Rightarrow> (JSON_parse (json w) decryptedData, s1)))"

text \<open>\<^verbatim>\<open>loadKeys\<close> after the test of the cache; \<open>load_failed\<close> is its \<^verbatim>\<open>catch\<close>.\<close>

definition load_from_file :: "world \<Rightarrow> manager \<Rightarrow> (js_error + json_doc) \<times> manager" where
  "load_from_file w s =
     (case getKeysFilePath w s of
        (Inl e, s1) \<Rightarrow> (Inl e, s1)
      | (Inr filePath, s1) \<Rightarrow>
          (let (ex, s2) = existsSync s1 filePath in
           if \<not> ex then (Inr (KeyArray []), s2\<lparr>keysCache := Some (KeyArray [])\<rparr>)
           else case read_decrypt_parse w s2 filePath of
             (Inl e, s3) \<Rightarrow> load_failed e s3
           | (Inr doc, s3) \<Rightarrow> (Inr doc, s3\<lparr>keysCache := Some doc\<rparr>)))"

text \<open>\<^verbatim>\<open>if (this.keysCache)\<close>: the cache is used when it holds a truthy value; an array is
  truthy also when it is empty.\<close>

definition cache_present :: "manager \<Rightarrow> bool" where
  "cache_present s = (case keysCache s of None \<Rightarrow> False | Some cached \<Rightarrow> truthy_doc cached)"

definition loadKeys :: "world \<Rightarrow> manager \<Rightarrow> (js_error + json_doc) \<times> manager" where
  "loadKeys w s =
     (case keysCache s of
        None \<Rightarrow> load_from_file w s
      | Some cached \<Rightarrow> if truthy_doc cached then (Inr cached, s) else load_from_file w s)"

definition saveKeys :: "world \<Rightarrow> manager \<Rightarrow> json_doc \<Rightarrow> (js_error + unit) \<times> manager" where
  "saveKeys w s keys =
     (case getKeysFilePath w s of
        (Inl e, s1) \<Rightarrow> (Inl e, s1)
      | (Inr filePath, s1) \<Rightarrow>
          (case encryptData w s1 (JSON_stringify (json w) keys) of
             (Inl e, s2) \<Rightarrow> (Inl e, s2)
           | (Inr encryptedData, s2) \<Rightarrow>
               (case writeFile w s2 filePath encryptedData of
                  (Inl e, s3) \<Rightarrow> (Inl e, s3)
                | (Inr u, s3) \<Rightarrow> (Inr (), s3\<lparr>keysCache := Some keys\<rparr>))))"

section \<open>Classification of key material\<close>

definition detectKeyType :: "jsstring \<Rightarrow> jsstring" where
  "detectKeyType keyContent =
     (if includes_js keyContent (js ''ssh-rsa'') then js ''RSA''
      else if includes_js keyContent (js ''ssh-dss'') then js ''DSA''
      else if includes_js keyContent (js ''ecdsa-sha2'') then js ''ECDSA''
      else if includes_js keyContent (js ''ssh-ed25519'') then js ''Ed25519''
      else js ''Unknown'')"

section \<open>Editing and deleting\<close>

text \<open>
  The options of \<^verbatim>\<open>ssh-kim edit\<close> (each a string or \<^verbatim>\<open>undefined\<close>) and the object
  \<^verbatim>\<open>updates\<close> that \<^verbatim>\<open>editKey\<close> builds, in which a field is present or not.
\<close>

record edit_options =
  opt_name :: jsval
  opt_tag :: jsval
  opt_content :: jsval

record key_updates =
  upd_name :: "jsval option"
  upd_tag :: "jsval option"
  upd_key :: "jsval option"

definition interactive_updates :: "world \<Rightarrow> ssh_key \<Rightarrow> key_updates" where
  "interactive_updates w k =
     (let (answer_name, answer_tag, updateContent) = prompt_edit (inquirer w) k in
      \<lparr>upd_name = Some (Str (trim answer_name)),
       upd_tag = Some (js_or (Str (trim answer_tag)) Null),
       upd_key = (if updateContent then Some (Str (trim (prompt_edit_content (inquirer w) k)))
                  else None)\<rparr>)"

definition option_updates :: "edit_options \<Rightarrow> key_updates" where
  "option_updates options =
     \<lparr>upd_name = (if truthy (opt_name options) then Some (opt_name options) else None),
      upd_tag = (if opt_tag options \<noteq> Undefined then Some (js_or (opt_tag options) Null) else None),
      upd_key = (if truthy (opt_content options) then Some (opt_content options) else None)\<rparr>"

text \<open>Which of the two: the prompts are used when no option holds a non-empty string.\<close>

definition collect_updates :: "world \<Rightarrow> edit_options \<Rightarrow> ssh_key \<Rightarrow> key_updates" where
  "collect_updates w options k =
     (if \<not> truthy (opt_name options) \<and> \<not> truthy (opt_tag options) \<and> \<not> truthy (opt_content options)
      then interactive_updates w k
      else option_updates options)"

text \<open>\<^verbatim>\<open>Object.assign(keys[keyIndex], updates, { last_modified: now })\<close>.\<close>

definition Object_assign :: "ssh_key \<Rightarrow> key_updates \<Rightarrow> jsstring \<Rightarrow> ssh_key" where
  "Object_assign k updates now =
     k\<lparr>name := (case upd_name updates of Some v \<Rightarrow> v | None \<Rightarrow> name k),
       tag := (case upd_tag updates of Some v \<Rightarrow> v | None \<Rightarrow> tag k),
       key := (case upd_key updates of Some v \<Rightarrow> v | None \<Rightarrow> key k),
       last_modified := Str now\<rparr>"

text \<open>
  The body of the \<^verbatim>\<open>try\<close> block of \<^verbatim>\<open>editKey\<close>. A value that is not an array has no
  \<^verbatim>\<open>findIndex\<close>: calling it is a \<^verbatim>\<open>TypeError\<close>.
\<close>

definition editKey_try ::
  "world \<Rightarrow> manager \<Rightarrow> jsstring \<Rightarrow> edit_options \<Rightarrow> (js_error + unit) \<times> manager" where
  "editKey_try w s kid options =
     (case loadKeys w s of
        (Inl e, s1) \<Rightarrow> (Inl e, s1)
      | (Inr doc, s1) \<Rightarrow>
          (case doc of
             KeyArray keys \<Rightarrow>
               (case findIndex (\<lambda>k. id' k = Str kid) keys of
                  None \<Rightarrow> (Inr (), print (KeyNotFound kid) s1)
                | Some keyIndex \<Rightarrow>
                    (let k = keys ! keyIndex;
                         updates = collect_updates w options k;
                         (now, s2) = new_Date_toISOString w s1;
                         keys' = keys[keyIndex := Object_assign k updates now];
                         s3 = s2\<lparr>keysCache := Some (KeyArray keys')\<rparr>
                     in case saveKeys w s3 (KeyArray keys') of
                          (Inl e, s4) \<Rightarrow> (Inl e, s4)
                        | (Inr u, s4) \<Rightarrow> (Inr (), print (KeyUpdated (name (keys' ! keyIndex))) s4)))
           | ExportDoc ks \<Rightarrow> (Inl TypeError, s1)
           | KeyObject k \<Rightarrow> (Inl TypeError, s1)
           | JNull \<Rightarrow> (Inl TypeError, s1)
           | JScalar b \<Rightarrow> (Inl TypeError, s1)))"

text \<open>
  \<^verbatim>\<open>editKey\<close>: the \<^verbatim>\<open>catch\<close> prints the error, so the promise is always fulfilled. The
  first component of the result is how the promise settles: \<open>Inr ()\<close> fulfilled, \<open>Inl e\<close>
  rejected with \<open>e\<close>.
\<close>

definition editKey ::
  "world \<Rightarrow> manager \<Rightarrow> jsstring \<Rightarrow> edit_options \<Rightarrow> (js_error + unit) \<times> manager" where
  "editKey w s kid options =
     (case editKey_try w s kid options of
        (Inl e, s') \<Rightarrow> (Inr (), print (ErrorUpdatingKey e) s')
      | (Inr u, s') \<Rightarrow> (Inr (), s'))"

text \<open>\<^verbatim>\<open>keys.splice(keyIndex, 1)\<close>.\<close>

definition splice1 :: "nat \<Rightarrow> 'a list \<Rightarrow> 'a list" where
  "splice1 i xs = take i xs @ drop (Suc i) xs"

definition deleteKey_try ::
  "world \<Rightarrow> manager \<Rightarrow> jsstring \<Rightarrow> bool \<Rightarrow> (js_error + unit) \<times> manager" where
  "deleteKey_try w s kid force =
     (case loadKeys w s of
        (Inl e, s1) \<Rightarrow> (Inl e, s1)
      | (Inr doc, s1) \<Rightarrow>
          (case doc of
             KeyArray keys \<Rightarrow>
               (case findIndex (\<lambda>k. id' k = Str kid) keys of
                  None \<Rightarrow> (Inr (), print (KeyNotFound kid) s1)
                | Some keyIndex \<Rightarrow>
                    (let k = keys ! keyIndex in
                     if \<not> force \<and> \<not> prompt_confirm_delete (inquirer w) k
                     then (Inr (), print DeletionCancelled s1)
                     else (let keys' = splice1 keyIndex keys;
                               s2 = s1\<lparr>keysCache := Some (KeyArray keys')\<rparr>
                           in case saveKeys w s2 (KeyArray keys') of
                                (Inl e, s3) \<Rightarrow> (Inl e, s3)
                              | (Inr u, s3) \<Rightarrow> (Inr (), print (KeyDeleted (name k)) s3))))
           | ExportDoc ks \<Rightarrow> (Inl TypeError, s1)
           | KeyObject k \<Rightarrow> (Inl TypeError, s1)
           | JNull \<Rightarrow> (Inl TypeError, s1)
           | JScalar b \<Rightarrow> (Inl TypeError, s1)))"

definition deleteKey ::
  "world \<Rightarrow> manager \<Rightarrow> jsstring \<Rightarrow> bool \<Rightarrow> (js_error + unit) \<times> manager" where
  "deleteKey w s kid force =
     (case deleteKey_try w s kid force of
        (Inl e, s') \<Rightarrow> (Inr (), print (ErrorDeletingKey e) s')
      | (Inr u, s') \<Rightarrow> (Inr (), s'))"

section \<open>Import from an export file\<close>

definition str_of :: "jsval \<Rightarrow> jsstring" where
  "str_of v = (case v of Str x \<Rightarrow> x | Null \<Rightarrow> [] | Undefined \<Rightarrow> [])"

text \<open>The first lines of \<^verbatim>\<open>importFromFile\<close>: the content of the file, decrypted with the
  key of the given password when there is one.\<close>

definition read_import_content ::
  "world \<Rightarrow> manager \<Rightarrow> jsstring \<Rightarrow> jsval \<Rightarrow> (js_error + jsstring) \<times> manager" where
  "read_import_content w s filePath password =
     (if truthy password then
        (case readFile w s filePath of
           (Inl e, s1) \<Rightarrow> (Inl e, s1)
         | (Inr encryptedData, s1) \<Rightarrow>
             (decrypt_envelope (crypto w) (deriveKeyFromPassword w (str_of password)) encryptedData, s1))
      else readFile w s filePath)"

text \<open>
  \<^verbatim>\<open>data.keys || [data]\<close>. On \<^verbatim>\<open>null\<close> the property access throws. On an array,
  \<^verbatim>\<open>data.keys\<close> is the method \<^verbatim>\<open>Array.prototype.keys\<close>, a function: truthy, and not
  iterable (\<open>None\<close>), which the \<^verbatim>\<open>for\<close> loop finds out. A primitive has none of the fields.
\<close>

definition no_fields :: ssh_key where
  "no_fields = \<lparr>id' = Undefined, name = Undefined, tag = Undefined, key = Undefined,
                key_type = Undefined, created = Undefined, last_modified = Undefined\<rparr>"

definition import_candidates :: "json_doc \<Rightarrow> js_error + ssh_key list option" where
  "import_candidates data =
     (case data of
        JNull \<Rightarrow> Inl TypeError
      | ExportDoc ks \<Rightarrow> Inr (Some ks)
      | KeyObject k \<Rightarrow> Inr (Some [k])
      | JScalar b \<Rightarrow> Inr (Some [no_fields])
      | KeyArray ks \<Rightarrow> Inr None)"

text \<open>The duplicate test of \<^verbatim>\<open>importFromFile\<close>:
  \<^verbatim>\<open>existingKeys.some(existing => existing.key === keyData.key || existing.name === keyData.name)\<close>.\<close>

definition isDuplicate :: "ssh_key list \<Rightarrow> ssh_key \<Rightarrow> bool" where
  "isDuplicate existingKeys keyData =
     list_ex (\<lambda>existing. key existing = key keyData \<or> name existing = name keyData) existingKeys"

text \<open>
  The \<^verbatim>\<open>for\<close> loop of \<^verbatim>\<open>importFromFile\<close>, with the two counters. \<^verbatim>\<open>existingKeys\<close> is
  the cached array. \<^verbatim>\<open>detectKeyType(undefined)\<close> throws a \<^verbatim>\<open>TypeError\<close>, after the id
  has been generated.
\<close>

fun importFromFile_loop ::
  "world \<Rightarrow> ssh_key list \<Rightarrow> nat \<Rightarrow> nat \<Rightarrow> manager \<Rightarrow> (js_error + nat \<times> nat) \<times> manager" where
  "importFromFile_loop w [] importedCount duplicateCount s = (Inr (importedCount, duplicateCount), s)"
| "importFromFile_loop w (keyData # rest) importedCount duplicateCount s =
     (case keysCache s of
        Some (KeyArray existingKeys) \<Rightarrow>
          if \<not> isDuplicate existingKeys keyData then
            (let (newId, s1) = generateId w s in
             case (if truthy (key_type keyData) then Inr (key_type keyData)
                   else (case key keyData of
                           Str content \<Rightarrow> Inr (Str (detectKeyType content))
                         | Null \<Rightarrow> Inl TypeError
                         | Undefined \<Rightarrow> Inl TypeError)) of
               Inl e \<Rightarrow> (Inl e, s1)
             | Inr keyType \<Rightarrow>
                 (let (created_at, s2) =
                        (if truthy (created keyData) then (created keyData, s1)
                         else (let (now, s') = new_Date_toISOString w s1 in (Str now, s')));
                      (now, s3) = new_Date_toISOString w s2;
                      newKey = \<lparr>id' = Str newId, name = name keyData,
                                tag = js_or (tag keyData) Null, key = key keyData,
                                key_type = keyType, created = created_at,
                                last_modified = Str now\<rparr>
                  in importFromFile_loop w rest (importedCount + 1) duplicateCount
                       (s3\<lparr>keysCache := Some (KeyArray (existingKeys @ [newKey]))\<rparr>)))
          else importFromFile_loop w rest importedCount (duplicateCount + 1) s
      | _ \<Rightarrow> (Inl TypeError, s))"

text \<open>The value of the object \<^verbatim>\<open>existingKeys\<close> after the loop: the cache holds it.\<close>

definition current_doc :: "manager \<Rightarrow> json_doc \<Rightarrow> json_doc" where
  "current_doc s loaded = (case keysCache s of Some d \<Rightarrow> d | None \<Rightarrow> loaded)"

definition importFromFile_try ::
  "world \<Rightarrow> manager \<Rightarrow> jsstring \<Rightarrow> jsval \<Rightarrow> (js_error + unit) \<times> manager" where
  "importFromFile_try w s filePath password =
     (case read_import_content w s filePath password of
        (Inl e, s1) \<Rightarrow> (Inl e, s1)
      | (Inr content, s1) \<Rightarrow>
          (case JSON_parse (json w) content of
             Inl e \<Rightarrow> (Inl e, s1)
           | Inr data \<Rightarrow>
               (case import_candidates data of
                  Inl e \<Rightarrow> (Inl e, s1)
                | Inr keys \<Rightarrow>
                    (case loadKeys w s1 of
                       (Inl e, s2) \<Rightarrow> (Inl e, s2)
                     | (Inr existingKeys, s2) \<Rightarrow>
                         (case keys of
                            None \<Rightarrow> (Inl TypeError, s2)
                          | Some candidates \<Rightarrow>
                              (case importFromFile_loop w candidates 0 0 s2 of
                                 (Inl e, s3) \<Rightarrow> (Inl e, s3)
                               | (Inr (importedCount, duplicateCount), s3) \<Rightarrow>
                                   (case saveKeys w s3 (current_doc s3 existingKeys) of
                                      (Inl e, s4) \<Rightarrow> (Inl e, s4)
                                    | (Inr u, s4) \<Rightarrow>
                                        (Inr (),
                                         (if 0 < duplicateCount
                                          then print (SkippedDuplicates duplicateCount)
                                          else (\<lambda>x. x))
                                           (print (ImportedKeys importedCount) s4)))))))))"

definition importFromFile ::
  "world \<Rightarrow> manager \<Rightarrow> jsstring \<Rightarrow> jsval \<Rightarrow> (js_error + unit) \<times> manager" where
  "importFromFile w s filePath password =
     (case importFromFile_try w s filePath password of
        (Inl e, s') \<Rightarrow> (Inr (), print (ErrorImportingFromFile e) s')
      | (Inr u, s') \<Rightarrow> (Inr (), s'))"

section \<open>Import from a directory and from a scan\<close>

definition is_pub :: "jsstring \<Rightarrow> bool" where
  "is_pub file = endsWith file (js ''.pub'')"

text \<open>
  The loop of \<^verbatim>\<open>importFromDirectory\<close>. Its \<^verbatim>\<open>try\<close> covers the read and the \<^verbatim>\<open>push\<close>:
  a file that cannot be read is reported and skipped, and so is every file when the loaded
  value is not an array (it has no \<^verbatim>\<open>push\<close>).
\<close>

fun importFromDirectory_loop ::
  "world \<Rightarrow> jsstring \<Rightarrow> jsstring list \<Rightarrow> nat \<Rightarrow> manager \<Rightarrow> nat \<times> manager" where
  "importFromDirectory_loop w dirPath [] importedCount s = (importedCount, s)"
| "importFromDirectory_loop w dirPath (file # rest) importedCount s =
     (let filePath = path_join (os w) dirPath file in
      case readFile w s filePath of
        (Inl e, s1) \<Rightarrow> importFromDirectory_loop w dirPath rest importedCount (print (SkippedFile file e) s1)
      | (Inr content, s1) \<Rightarrow>
          (let keyType = detectKeyType content;
               (newId, s2) = generateId w s1;
               (created_at, s3) = new_Date_toISOString w s2;
               (now, s4) = new_Date_toISOString w s3;
               newKey = \<lparr>id' = Str newId, name = Str file, tag = Null, key = Str (trim content),
                         key_type = Str keyType, created = Str created_at,
                         last_modified = Str now\<rparr>
           in case keysCache s4 of
                Some (KeyArray keys) \<Rightarrow>
                  importFromDirectory_loop w dirPath rest (importedCount + 1)
                    (s4\<lparr>keysCache := Some (KeyArray (keys @ [newKey]))\<rparr>)
              | _ \<Rightarrow>
                  importFromDirectory_loop w dirPath rest importedCount
                    (print (SkippedFile file TypeError) s4)))"

text \<open>\<^verbatim>\<open>importFromDirectory\<close> has no \<^verbatim>\<open>try\<close> of its own: an error of \<^verbatim>\<open>readdir\<close>,
  \<^verbatim>\<open>loadKeys\<close> or \<^verbatim>\<open>saveKeys\<close> rejects the promise.\<close>

definition importFromDirectory ::
  "world \<Rightarrow> manager \<Rightarrow> jsstring \<Rightarrow> (js_error + unit) \<times> manager" where
  "importFromDirectory w s dirPath =
     (case readdir w s dirPath of
        (Inl e, s1) \<Rightarrow> (Inl e, s1)
      | (Inr listing, s1) \<Rightarrow>
          (let pubFiles = filter is_pub listing in
           if pubFiles = [] then (Inr (), print NoPublicKeyFiles s1)
           else case loadKeys w s1 of
             (Inl e, s2) \<Rightarrow> (Inl e, s2)
           | (Inr keys, s2) \<Rightarrow>
               (let (importedCount, s3) = importFromDirectory_loop w dirPath pubFiles 0 s2 in
                case saveKeys w s3 (current_doc s3 keys) of
                  (Inl e, s4) \<Rightarrow> (Inl e, s4)
                | (Inr u, s4) \<Rightarrow> (Inr (), print (ImportedKeys importedCount) s4))))"

definition getCommonSSHLocations :: "node_os \<Rightarrow> jsstring list" where
  "getCommonSSHLocations e =
     [path_join e (homedir e) (js ''.ssh''),
      path_join e (homedir e) (js ''ssh''),
      path_join e (path_join e (homedir e) (js ''Documents'')) (js ''ssh'')]
     @ (if is_win32 e
        then [path_join e (env_APPDATA e) (js ''PuTTY''), path_join e (env_LOCALAPPDATA e) (js ''ssh'')]
        else [])"

fun scan_files ::
  "world \<Rightarrow> jsstring \<Rightarrow> jsstring list \<Rightarrow> scanned_key list \<Rightarrow> manager \<Rightarrow> scanned_key list \<times> manager" where
  "scan_files w location [] foundKeys s = (foundKeys, s)"
| "scan_files w location (file # rest) foundKeys s =
     (if is_pub file then
        (let filePath = path_join (os w) location file in
         case readFile w s filePath of
           (Inl e, s1) \<Rightarrow> scan_files w location rest foundKeys s1
         | (Inr content, s1) \<Rightarrow>
             scan_files w location rest
               (foundKeys @ [\<lparr>scan_name = file, scan_path = filePath, scan_content = trim content,
                              scan_type = detectKeyType content\<rparr>]) s1)
      else scan_files w location rest foundKeys s)"

fun scan_locations ::
  "world \<Rightarrow> jsstring list \<Rightarrow> scanned_key list \<Rightarrow> manager \<Rightarrow> (js_error + scanned_key list) \<times> manager" where
  "scan_locations w [] foundKeys s = (Inr foundKeys, s)"
| "scan_locations w (location # rest) foundKeys s =
     (let (ex, s1) = existsSync s location in
      if ex then
        (case readdir w s1 location of
           (Inl e, s2) \<Rightarrow> (Inl e, s2)
         | (Inr listing, s2) \<Rightarrow>
             (let (foundKeys', s3) = scan_files w location listing foundKeys s2
              in scan_locations w rest foundKeys' s3))
      else scan_locations w rest foundKeys s1)"

definition scanCommonLocations :: "world \<Rightarrow> manager \<Rightarrow> (js_error + scanned_key list) \<times> manager" where
  "scanCommonLocations w s = scan_locations w (getCommonSSHLocations (os w)) [] s"

text \<open>The loop of \<^verbatim>\<open>importFromScan\<close>, which no \<^verbatim>\<open>try\<close> covers.\<close>

fun importFromScan_loop ::
  "world \<Rightarrow> scanned_key list \<Rightarrow> nat \<Rightarrow> manager \<Rightarrow> (js_error + nat) \<times> manager" where
  "importFromScan_loop w [] importedCount s = (Inr importedCount, s)"
| "importFromScan_loop w (selectedKey # rest) importedCount s =
     (let (newId, s1) = generateId w s;
          (created_at, s2) = new_Date_toISOString w s1;
          (now, s3) = new_Date_toISOString w s2;
          newKey = \<lparr>id' = Str newId, name = Str (scan_name selectedKey), tag = Null,
                    key = Str (scan_content selectedKey), key_type = Str (scan_type selectedKey),
                    created = Str created_at, last_modified = Str now\<rparr>
      in case keysCache s3 of
           Some (KeyArray keys) \<Rightarrow>
             importFromScan_loop w rest (importedCount + 1)
               (s3\<lparr>keysCache := Some (KeyArray (keys @ [newKey]))\<rparr>)
         | _ \<Rightarrow> (Inl TypeError, s3))"

definition importFromScan :: "world \<Rightarrow> manager \<Rightarrow> (js_error + unit) \<times> manager" where
  "importFromScan w s =
     (case scanCommonLocations w s of
        (Inl e, s1) \<Rightarrow> (Inl e, s1)
      | (Inr scannedKeys, s1) \<Rightarrow>
          if scannedKeys = [] then (Inr (), print NoKeysFound s1)
          else (let selectedKeys = prompt_select_keys (inquirer w) scannedKeys in
                if selectedKeys = [] then (Inr (), print NoKeysSelected s1)
                else case loadKeys w s1 of
                  (Inl e, s2) \<Rightarrow> (Inl e, s2)
                | (Inr keys, s2) \<Rightarrow>
                    (case importFromScan_loop w selectedKeys 0 s2 of
                       (Inl e, s3) \<Rightarrow> (Inl e, s3)
                     | (Inr importedCount, s3) \<Rightarrow>
                         (case saveKeys w s3 (current_doc s3 keys) of
                            (Inl e, s4) \<Rightarrow> (Inl e, s4)
                          | (Inr u, s4) \<Rightarrow> (Inr (), print (ImportedKeys importedCount) s4)))))"

section \<open>A small environment for the examples\<close>

text \<open>
  The examples below run the model in one concrete environment. In it XOR with the first
  half of the key stands in for the AES block cipher and truncation for SHA-256; no
  file-system call fails; two directories list the same three files; \<^verbatim>\<open>JSON.parse\<close> knows
  one document, an export of two keys of the same name.
\<close>

definition demo_crypto :: node_crypto where
  "demo_crypto =
     \<lparr>sha256 = (\<lambda>bs. take 32 (bs @ replicate 32 0)),
      aes_encrypt_block = (\<lambda>k b. xor_bytes b (take 16 k)),
      aes_decrypt_block = (\<lambda>k b. xor_bytes b (take 16 k)),
      randomBytes = (\<lambda>t n. replicate n (of_nat t)),
      randomUUID = (\<lambda>t. js ''uuid-'' @ [hex_digit (t mod 16)])\<rparr>"

definition demo_os :: node_os where
  "demo_os =
     \<lparr>hostname = js ''host'', homedir = js ''/home/u'', cwd = js ''/work'',
      path_join = (\<lambda>a b. a @ js ''/'' @ b), is_win32 = False,
      env_APPDATA = [], env_LOCALAPPDATA = [],
      date_now = (\<lambda>t. js ''2025-01-01T00:00:0'' @ [hex_digit (t mod 10)])\<rparr>"

definition demo_disk :: node_disk where
  "demo_disk =
     \<lparr>read_fails = (\<lambda>p. False), write_fails = (\<lambda>p d. None), mkdirp_fails = (\<lambda>p. False),
      readdir_result = (\<lambda>p. if p = js ''/keys'' \<or> p = js ''/home/u/.ssh''
                             then Inr [js ''a.pub'', js ''notes.txt'', js ''b.pub'']
                             else Inl FsError)\<rparr>"

definition demo_key :: "string \<Rightarrow> string \<Rightarrow> string \<Rightarrow> ssh_key" where
  "demo_key i n k =
     \<lparr>id' = Str (js i), name = Str (js n), tag = Null, key = Str (js k),
      key_type = Str (js ''RSA''), created = Str (js ''2020''), last_modified = Str (js ''2020'')\<rparr>"

definition demo_json :: node_json where
  "demo_json =
     \<lparr>JSON_stringify = (\<lambda>d. js ''[]''),
      JSON_parse = (\<lambda>x. if x = js ''batch''
                          then Inr (ExportDoc [demo_key ''x'' ''github'' ''ssh-rsa AAAA'',
                                              demo_key ''y'' ''github'' ''ssh-rsa BBBB''])
                          else Inl SyntaxError)\<rparr>"

definition demo_prompts :: prompts where
  "demo_prompts =
     \<lparr>prompt_edit = (\<lambda>k. (js '' work '', [], False)),
      prompt_edit_content = (\<lambda>k. []),
      prompt_confirm_delete = (\<lambda>k. True),
      prompt_select_keys = (\<lambda>ks. ks)\<rparr>"

definition demo_world :: world where
  "demo_world = \<lparr>crypto = demo_crypto, os = demo_os, disk = demo_disk, json = demo_json,
                  inquirer = demo_prompts\<rparr>"

text \<open>The same environment in a working directory where nothing can be created.\<close>

definition demo_world_readonly :: world where
  "demo_world_readonly = demo_world\<lparr>disk := demo_disk\<lparr>mkdirp_fails := (\<lambda>p. True)\<rparr>\<rparr>"

text \<open>And one where every write fails and leaves no file.\<close>

definition demo_world_disk_full :: world where
  "demo_world_disk_full = demo_world\<lparr>disk := demo_disk\<lparr>write_fails := (\<lambda>p d. Some None)\<rparr>\<rparr>"

definition demo_manager :: manager where
  "demo_manager = new_SSHKeyManager demo_world Null Null Map.empty (\<lambda>p. False)"

text \<open>Three more states: the store already loaded with one key; loaded and empty; and not
  loaded, with a store file that is no envelope.\<close>

definition demo_loaded :: manager where
  "demo_loaded = demo_manager\<lparr>keysCache := Some (KeyArray [demo_key ''id-1'' ''github'' ''ssh-rsa AAAA''])\<rparr>"

definition demo_loaded_empty :: manager where
  "demo_loaded_empty = demo_manager\<lparr>keysCache := Some (KeyArray [])\<rparr>"

definition demo_corrupt :: manager where
  "demo_corrupt =
     demo_manager\<lparr>files := [js ''/work/data/ssh_keys.enc'' \<mapsto> js ''garbage''],
                   dirs := (\<lambda>p. p = js ''/work/data'')\<rparr>"

text \<open>Options of \<^verbatim>\<open>ssh-kim edit\<close>: a new tag and new key material of another family.\<close>

definition demo_options :: edit_options where
  "demo_options = \<lparr>opt_name = Undefined, opt_tag = Str (js ''work''),
                    opt_content = Str (js ''ssh-ed25519 CCCC'')\<rparr>"

section \<open>The merge of an import, as a function of the collection and the batch\<close>

text \<open>
  The candidates of a batch that are imported when every candidate is compared with the
  collection as it stands when its turn comes: the loaded collection and the candidates
  accepted before it (which enter the collection with their own name and key material).
\<close>

fun accepted :: "ssh_key list \<Rightarrow> ssh_key list \<Rightarrow> ssh_key list" where
  "accepted existing [] = []"
| "accepted existing (c # cs) =
     (if isDuplicate existing c then accepted existing cs
      else c # accepted (existing @ [c]) cs)"

text \<open>
  The same when, in the words of the specification, every decision is made against the
  collection loaded before the batch.
\<close>

definition accepted_against_snapshot :: "ssh_key list \<Rightarrow> ssh_key list \<Rightarrow> ssh_key list" where
  "accepted_against_snapshot snapshot cs = filter (\<lambda>c. \<not> isDuplicate snapshot c) cs"

text \<open>
  What the record \<open>n\<close> appended for an accepted candidate \<open>c\<close> holds: name and key material of
  the candidate, its tag or \<^verbatim>\<open>null\<close>, its type when it has one and else the type detected in
  its key material, its \<^verbatim>\<open>created\<close> when it has one and else the time of the import, and
  the time of the import as \<^verbatim>\<open>last_modified\<close>.
\<close>

definition imported_as :: "world \<Rightarrow> ssh_key \<Rightarrow> ssh_key \<Rightarrow> bool" where
  "imported_as w n c \<longleftrightarrow>
     name n = name c \<and> key n = key c \<and> tag n = js_or (tag c) Null
     \<and> key_type n = (if truthy (key_type c) then key_type c else Str (detectKeyType (str_of (key c))))
     \<and> (\<exists>t. created n = (if truthy (created c) then created c else Str (date_now (os w) t)))
     \<and> (\<exists>t. last_modified n = Str (date_now (os w) t))"

text \<open>A state with an export file to import, and one with two directories of public keys
  (\<^verbatim>\<open>b.pub\<close> is listed in them but cannot be read), whose store already holds a key named as
  the first file and with its content.\<close>

definition demo_import :: manager where
  "demo_import = demo_manager\<lparr>files := [js ''/in.json'' \<mapsto> js ''batch'']\<rparr>"

definition demo_directory :: manager where
  "demo_directory =
     demo_manager\<lparr>files := [js ''/keys/a.pub'' \<mapsto> js ''ssh-rsa AAAA'',
                              js ''/keys/notes.txt'' \<mapsto> js ''notes'',
                              js ''/home/u/.ssh/a.pub'' \<mapsto> js ''ssh-rsa AAAA''],
                   dirs := (\<lambda>p. p = js ''/home/u/.ssh''),
                   keysCache := Some (KeyArray [demo_key ''id-1'' ''a.pub'' ''ssh-rsa AAAA''])\<rparr>"

section \<open>The steps of the import loop\<close>

text \<open>Two abbreviations for the steps of the loop of \<^verbatim>\<open>importFromFile\<close>: the type a candidate
  gets (or the \<^verbatim>\<open>TypeError\<close> of \<^verbatim>\<open>detectKeyType(undefined)\<close>), and the record built for a
  candidate when the id is generated at tick \<open>t\<close>.\<close>

definition candidate_type :: "ssh_key \<Rightarrow> js_error + jsval" where
  "candidate_type c =
     (if truthy (key_type c) then Inr (key_type c)
      else (case key c of
              Str content \<Rightarrow> Inr (Str (detectKeyType content))
            | Null \<Rightarrow> Inl TypeError
            | Undefined \<Rightarrow> Inl TypeError))"

definition new_record :: "world \<Rightarrow> nat \<Rightarrow> ssh_key \<Rightarrow> jsval \<Rightarrow> ssh_key" where
  "new_record w t c kt =
     \<lparr>id' = Str (randomUUID (crypto w) t), name = name c, tag = js_or (tag c) Null, key = key c,
      key_type = kt,
      created = (if truthy (created c) then created c else Str (date_now (os w) (Suc t))),
      last_modified = Str (date_now (os w) (if truthy (created c) then Suc t else Suc (Suc t)))\<rparr>"

text \<open>The loop touches the cache and the counter of calls, nothing else.\<close>

definition unchanged_outside_cache :: "manager \<Rightarrow> manager \<Rightarrow> bool" where
  "unchanged_outside_cache s s' \<longleftrightarrow>
     files s' = files s \<and> dirs s' = dirs s \<and> fs_log s' = fs_log s \<and> console s' = console s
     \<and> config_keysFilePath s' = config_keysFilePath s \<and> passwordKey s' = passwordKey s
     \<and> machineKey s' = machineKey s \<and> tick s \<le> tick s'"

section \<open>Files that can be read\<close>

text \<open>\<^verbatim>\<open>fs.readFile\<close> succeeds on a path when a file is there and the read does not fail;
  it then returns the content of the file.\<close>

definition readable :: "world \<Rightarrow> (jsstring \<Rightarrow> jsstring option) \<Rightarrow> jsstring \<Rightarrow> bool" where
  "readable w fs p \<longleftrightarrow> fs p \<noteq> None \<and> \<not> read_fails (disk w) p"

definition content_of :: "(jsstring \<Rightarrow> jsstring option) \<Rightarrow> jsstring \<Rightarrow> jsstring" where
  "content_of fs p = (case fs p of Some c \<Rightarrow> c | None \<Rightarrow> [])"

section \<open>Properties of the string functions\<close>

lemma startsWith_prefix: "startsWith s p \<longleftrightarrow> prefix p s"
  by (induction s p rule: startsWith.induct) auto

lemma includes_js_sublist: "includes_js s m \<longleftrightarrow> sublist m s"
  by (induction s) (simp_all add: startsWith_prefix sublist_Cons_right)

section \<open>The classifier\<close>

text \<open>
  Claim C7. \<open>detectKeyType\<close> is a function on all strings (total and deterministic). It
  looks for the markers \<^verbatim>\<open>ssh-rsa\<close>, \<^verbatim>\<open>ssh-dss\<close>, \<^verbatim>\<open>ecdsa-sha2\<close>, \<^verbatim>\<open>ssh-ed25519\<close> as
  contiguous substrings, in this order; the first marker that occurs decides the family,
  and a string with none of them is \<^verbatim>\<open>Unknown\<close>. The statement speaks of occurrence as a
  substring (\<open>sublist\<close>: the string is some prefix, then the marker, then some suffix),
  where the definition runs the search of \<^verbatim>\<open>includes\<close>.
\<close>

theorem detectKeyType_first_match:
  "detectKeyType s =
     (if sublist (js ''ssh-rsa'') s then js ''RSA''
      else if sublist (js ''ssh-dss'') s then js ''DSA''
      else if sublist (js ''ecdsa-sha2'') s then js ''ECDSA''
      else if sublist (js ''ssh-ed25519'') s then js ''Ed25519''
      else js ''Unknown'')"
  unfolding detectKeyType_def includes_js_sublist ..

text \<open>The theorem at a string that holds two markers: the earlier one in the order wins.\<close>

theorem detectKeyType_first_match_witness:
  "sublist (js ''ssh-rsa'') (js ''ssh-ed25519 ssh-rsa AAAA'')
   \<and> sublist (js ''ssh-ed25519'') (js ''ssh-ed25519 ssh-rsa AAAA'')
   \<and> detectKeyType (js ''ssh-ed25519 ssh-rsa AAAA'') = js ''RSA''"
proof -
  have a: "sublist (js ''ssh-rsa'') (js ''ssh-ed25519 ssh-rsa AAAA'')"
    unfolding includes_js_sublist [symmetric] by (simp add: js_def)
  have b: "sublist (js ''ssh-ed25519'') (js ''ssh-ed25519 ssh-rsa AAAA'')"
    unfolding includes_js_sublist [symmetric] by (simp add: js_def)
  show ?thesis
    using a b detectKeyType_first_match [of "js ''ssh-ed25519 ssh-rsa AAAA''"] by simp
qed

text \<open>The three examples of the specification.\<close>

lemma detectKeyType_examples:
  "detectKeyType (js ''ssh-rsa AAAA...'') = js ''RSA''"
  "detectKeyType (js ''ssh-ed25519 AAAA...'') = js ''Ed25519''"
  "detectKeyType (js ''garbage'') = js ''Unknown''"
  by (simp_all add: detectKeyType_def js_def)

section \<open>Properties of the encodings\<close>

lemma unat_byte: "n < 256 \<Longrightarrow> unat (of_nat n :: byte) = n"
  by (simp add: unat_of_nat)

lemma dec1: "unat b < 0x80 \<Longrightarrow> utf8_decode (b # bs) = of_nat (unat b) # utf8_decode bs"
  by simp

lemma dec2:
  "0xC2 \<le> unat b \<Longrightarrow> unat b \<le> 0xDF \<Longrightarrow> in_range 0x80 0xBF b1 \<Longrightarrow>
   utf8_decode (b # b1 # r) = utf16_of_cp ((unat b - 0xC0) * 64 + cont_bits b1) @ utf8_decode r"
  by simp

lemma dec3:
  "0xE0 \<le> unat b \<Longrightarrow> unat b \<le> 0xEF \<Longrightarrow>
   in_range (if unat b = 0xE0 then 0xA0 else 0x80) (if unat b = 0xED then 0x9F else 0xBF) b1 \<Longrightarrow>
   in_range 0x80 0xBF b2 \<Longrightarrow>
   utf8_decode (b # b1 # b2 # r) =
     utf16_of_cp ((unat b - 0xE0) * 4096 + cont_bits b1 * 64 + cont_bits b2) @ utf8_decode r"
  by (simp add: Let_def)

lemma dec4:
  "0xF0 \<le> unat b \<Longrightarrow> unat b \<le> 0xF4 \<Longrightarrow>
   in_range (if unat b = 0xF0 then 0x90 else 0x80) (if unat b = 0xF4 then 0x8F else 0xBF) b1 \<Longrightarrow>
   in_range 0x80 0xBF b2 \<Longrightarrow> in_range 0x80 0xBF b3 \<Longrightarrow>
   utf8_decode (b # b1 # b2 # b3 # r) =
     utf16_of_cp ((unat b - 0xF0) * 262144 + cont_bits b1 * 4096 + cont_bits b2 * 64 + cont_bits b3)
       @ utf8_decode r"
  by (simp add: Let_def)

lemma dec_enc_1:
  assumes "n < 0x80"
  shows "utf8_decode (utf8_of_cp n @ rest) = utf16_of_cp n @ utf8_decode rest"
proof -
  have u: "unat (of_nat n :: byte) = n" using assms by (simp add: unat_byte)
  show ?thesis using assms u by (simp add: utf8_of_cp_def utf16_of_cp_def del: utf8_decode.simps(2) add: dec1)
qed


lemma dec_enc_2:
  assumes "0x80 \<le> n" "n < 0x800"
  shows "utf8_decode (utf8_of_cp n @ rest) = utf16_of_cp n @ utf8_decode rest"
proof -
  define b0 :: byte where "b0 = of_nat (0xC0 + n div 64)"
  define b1 :: byte where "b1 = of_nat (0x80 + n mod 64)"
  have d: "n div 64 < 32" "2 \<le> n div 64" using assms by arith+
  have u0: "unat b0 = 0xC0 + n div 64"
    unfolding b0_def using d by (intro unat_byte) simp
  have u1: "unat b1 = 0x80 + n mod 64"
    unfolding b1_def by (intro unat_byte) simp
  have e: "utf8_of_cp n = [b0, b1]"
    using assms by (simp add: utf8_of_cp_def b0_def b1_def)
  have "utf8_decode (b0 # b1 # rest) =
          utf16_of_cp ((unat b0 - 0xC0) * 64 + cont_bits b1) @ utf8_decode rest"
    using d by (intro dec2) (simp_all add: u0 u1 in_range_def)
  moreover have "(unat b0 - 0xC0) * 64 + cont_bits b1 = n"
    by (simp add: u0 u1 cont_bits_def)
  ultimately show ?thesis by (simp add: e)
qed


lemma split3: "(n::nat) div 4096 * 4096 + n div 64 mod 64 * 64 + n mod 64 = n"
proof -
  have a: "n div 4096 = n div 64 div 64" by (simp add: div_mult2_eq)
  have b: "n div 64 div 64 * 64 + n div 64 mod 64 = n div 64" by (rule div_mult_mod_eq)
  have c: "n div 64 * 64 + n mod 64 = n" by (rule div_mult_mod_eq)
  show ?thesis using a b c by linarith
qed

lemma split4:
  "(n::nat) div 262144 * 262144 + n div 4096 mod 64 * 4096 + n div 64 mod 64 * 64 + n mod 64 = n"
proof -
  have a: "n div 262144 = n div 4096 div 64" by (simp add: div_mult2_eq)
  have b: "n div 4096 div 64 * 64 + n div 4096 mod 64 = n div 4096" by (rule div_mult_mod_eq)
  have "n div 4096 = n div 64 div 64" by (simp add: div_mult2_eq)
  then have c: "n div 4096 * 64 + n div 64 mod 64 = n div 64" by (simp add: div_mult_mod_eq)
  have d: "n div 64 * 64 + n mod 64 = n" by (rule div_mult_mod_eq)
  show ?thesis using a b c d by linarith
qed

lemma dec_enc_3:
  assumes "0x800 \<le> n" "n < 0x10000" "\<not> (0xD800 \<le> n \<and> n \<le> 0xDFFF)"
  shows "utf8_decode (utf8_of_cp n @ rest) = utf16_of_cp n @ utf8_decode rest"
proof -
  define x where "x = n div 4096"
  define y where "y = n div 64 mod 64"
  define z where "z = n mod 64"
  have n: "x * 4096 + y * 64 + z = n" unfolding x_def y_def z_def by (rule split3)
  have yz: "y < 64" "z < 64" by (simp_all add: y_def z_def)
  have x: "x < 16" using n assms(2) by linarith
  have lo: "x = 0 \<Longrightarrow> 32 \<le> y" using n yz assms(1) by linarith
  have hi: "x = 13 \<Longrightarrow> y \<le> 31" using n yz assms(2,3) by linarith
  define b0 :: byte where "b0 = of_nat (0xE0 + x)"
  define b1 :: byte where "b1 = of_nat (0x80 + y)"
  define b2 :: byte where "b2 = of_nat (0x80 + z)"
  have u0: "unat b0 = 0xE0 + x" unfolding b0_def using x by (intro unat_byte) simp
  have u1: "unat b1 = 0x80 + y" unfolding b1_def using yz by (intro unat_byte) simp
  have u2: "unat b2 = 0x80 + z" unfolding b2_def using yz by (intro unat_byte) simp
  have e: "utf8_of_cp n = [b0, b1, b2]"
    using assms by (simp add: utf8_of_cp_def b0_def b1_def b2_def x_def y_def z_def)
  have r1: "in_range (if unat b0 = 0xE0 then 0xA0 else 0x80) (if unat b0 = 0xED then 0x9F else 0xBF) b1"
    using lo hi yz by (simp add: u0 u1 in_range_def)
  have "utf8_decode (b0 # b1 # b2 # rest) =
          utf16_of_cp ((unat b0 - 0xE0) * 4096 + cont_bits b1 * 64 + cont_bits b2) @ utf8_decode rest"
    using x r1 yz by (intro dec3) (simp_all add: u0 u2 in_range_def)
  moreover have "(unat b0 - 0xE0) * 4096 + cont_bits b1 * 64 + cont_bits b2 = n"
    using n by (simp add: u0 u1 u2 cont_bits_def)
  ultimately show ?thesis by (simp add: e)
qed

lemma dec_enc_4:
  assumes "0x10000 \<le> n" "n < 0x110000"
  shows "utf8_decode (utf8_of_cp n @ rest) = utf16_of_cp n @ utf8_decode rest"
proof -
  define x where "x = n div 262144"
  define y where "y = n div 4096 mod 64"
  define z where "z = n div 64 mod 64"
  define t where "t = n mod 64"
  have n: "x * 262144 + y * 4096 + z * 64 + t = n" unfolding x_def y_def z_def t_def by (rule split4)
  have yz: "y < 64" "z < 64" "t < 64" by (simp_all add: y_def z_def t_def)
  have x: "x < 5" using n assms(2) by linarith
  have lo: "x = 0 \<Longrightarrow> 16 \<le> y" using n yz assms(1) by linarith
  have hi: "x = 4 \<Longrightarrow> y \<le> 15" using n yz assms(2) by linarith
  define b0 :: byte where "b0 = of_nat (0xF0 + x)"
  define b1 :: byte where "b1 = of_nat (0x80 + y)"
  define b2 :: byte where "b2 = of_nat (0x80 + z)"
  define b3 :: byte where "b3 = of_nat (0x80 + t)"
  have u0: "unat b0 = 0xF0 + x" unfolding b0_def using x by (intro unat_byte) simp
  have u1: "unat b1 = 0x80 + y" unfolding b1_def using yz by (intro unat_byte) simp
  have u2: "unat b2 = 0x80 + z" unfolding b2_def using yz by (intro unat_byte) simp
  have u3: "unat b3 = 0x80 + t" unfolding b3_def using yz by (intro unat_byte) simp
  have e: "utf8_of_cp n = [b0, b1, b2, b3]"
    using assms by (simp add: utf8_of_cp_def b0_def b1_def b2_def b3_def x_def y_def z_def t_def)
  have r1: "in_range (if unat b0 = 0xF0 then 0x90 else 0x80) (if unat b0 = 0xF4 then 0x8F else 0xBF) b1"
    using lo hi yz by (simp add: u0 u1 in_range_def)
  have "utf8_decode (b0 # b1 # b2 # b3 # rest) =
          utf16_of_cp ((unat b0 - 0xF0) * 262144 + cont_bits b1 * 4096 + cont_bits b2 * 64 + cont_bits b3)
            @ utf8_decode rest"
    using x r1 yz by (intro dec4) (simp_all add: u0 u2 u3 in_range_def)
  moreover have "(unat b0 - 0xF0) * 262144 + cont_bits b1 * 4096 + cont_bits b2 * 64 + cont_bits b3 = n"
    using n by (simp add: u0 u1 u2 u3 cont_bits_def)
  ultimately show ?thesis by (simp add: e)
qed

lemma dec_enc_cp:
  assumes "n < 0x110000" "\<not> (0xD800 \<le> n \<and> n \<le> 0xDFFF)"
  shows "utf8_decode (utf8_of_cp n @ rest) = utf16_of_cp n @ utf8_decode rest"
proof -
  consider "n < 0x80" | "0x80 \<le> n" "n < 0x800" | "0x800 \<le> n" "n < 0x10000" | "0x10000 \<le> n"
    by linarith
  then show ?thesis
  proof cases
    case 1 then show ?thesis by (rule dec_enc_1)
  next
    case 2 then show ?thesis by (rule dec_enc_2)
  next
    case 3 then show ?thesis using assms(2) by (rule dec_enc_3)
  next
    case 4 then show ?thesis using assms(1) by (rule dec_enc_4)
  qed
qed

lemma unat_cu_less: "unat (c :: 16 word) < 0x10000"
  using unsigned_less [of c, where 'a = nat] by simp

lemma utf16_of_bmp: "utf16_of_cp (unat (c :: 16 word)) = [c]"
  using unat_cu_less [of c] by (simp add: utf16_of_cp_def)

lemma surrogate_bounds:
  "is_high_surrogate c \<Longrightarrow> 0xD800 \<le> unat c \<and> unat c \<le> 0xDBFF"
  "is_low_surrogate d \<Longrightarrow> 0xDC00 \<le> unat d \<and> unat d \<le> 0xDFFF"
  by (simp_all add: is_high_surrogate_def is_low_surrogate_def word_le_nat_alt)

lemma utf16_of_pair:
  assumes "is_high_surrogate c" "is_low_surrogate d"
  shows "utf16_of_cp (cp_of_pair c d) = [c, d]"
proof -
  define x where "x = unat c - 0xD800"
  define y where "y = unat d - 0xDC00"
  have xy: "x < 1024" "y < 1024" "0xD800 + x = unat c" "0xDC00 + y = unat d"
    using surrogate_bounds(1) [OF assms(1)] surrogate_bounds(2) [OF assms(2)]
    unfolding x_def y_def by linarith+
  have cp: "cp_of_pair c d = 0x10000 + (x * 1024 + y)"
    by (simp add: cp_of_pair_def x_def y_def)
  have dm: "(x * 1024 + y) div 1024 = x" "(x * 1024 + y) mod 1024 = y"
    using xy(1,2) by simp_all
  show ?thesis
    unfolding utf16_of_cp_def cp using dm xy(3,4) by simp
qed

lemma cp_of_pair_range:
  assumes "is_high_surrogate c" "is_low_surrogate d"
  shows "0x10000 \<le> cp_of_pair c d" "cp_of_pair c d < 0x110000"
  using surrogate_bounds(1) [OF assms(1)] surrogate_bounds(2) [OF assms(2)]
  unfolding cp_of_pair_def by linarith+

lemma utf8_roundtrip: "well_formed s \<Longrightarrow> utf8_decode (utf8_encode s) = s"
proof (induction s rule: utf8_encode.induct)
  case 1
  show ?case by simp
next
  case (2 c cs)
  show ?case
  proof (cases "is_high_surrogate c")
    case True
    with "2.prems" obtain d ds where cs: "cs = d # ds" and d: "is_low_surrogate d" and wf: "well_formed ds"
      by (auto split: list.splits)
    have ih: "utf8_decode (utf8_encode ds) = ds" using "2.IH"(1) True cs d wf by simp
    have "utf8_decode (utf8_of_cp (cp_of_pair c d) @ utf8_encode ds) = [c, d] @ ds"
      using dec_enc_4 [OF cp_of_pair_range [OF True d]] utf16_of_pair [OF True d] ih by simp
    then show ?thesis using True cs d by (simp del: utf8_decode.simps)
  next
    case False
    with "2.prems" have nl: "\<not> is_low_surrogate c" and wf: "well_formed cs" by simp_all
    have ih: "utf8_decode (utf8_encode cs) = cs" using "2.IH"(4) False nl wf by simp
    have r: "unat c < 0x110000" using unat_cu_less [of c] by simp
    have ns: "\<not> (0xD800 \<le> unat c \<and> unat c \<le> 0xDFFF)"
      using False nl by (auto simp: is_high_surrogate_def is_low_surrogate_def word_le_nat_alt)
    have "utf8_decode (utf8_of_cp (unat c) @ utf8_encode cs) = c # cs"
      using dec_enc_cp [OF r ns] utf16_of_bmp ih by simp
    then show ?thesis using False nl by (simp del: utf8_decode.simps)
  qed
qed


lemma unat_cu: "n < 0x10000 \<Longrightarrow> unat (of_nat n :: 16 word) = n"
  by (simp add: unat_of_nat)

lemma hex_digit_unat:
  assumes "n < 16"
  shows "unat (hex_digit n) = (if n < 10 then 0x30 + n else 0x57 + n)"
proof (cases "n < 10")
  case True
  have "unat (of_nat (0x30 + n) :: 16 word) = 0x30 + n" using assms by (intro unat_cu) simp
  then show ?thesis using True unfolding hex_digit_def by (simp only: if_True)
next
  case False
  have "unat (of_nat (0x57 + n) :: 16 word) = 0x57 + n" using assms by (intro unat_cu) simp
  then show ?thesis using False unfolding hex_digit_def by (simp only: if_False)
qed

lemma hex_value_digit: "n < 16 \<Longrightarrow> hex_value (hex_digit n) = Some n"
  by (simp add: hex_value_def hex_digit_unat Let_def)

lemma hex_digit_not_colon: "n < 16 \<Longrightarrow> hex_digit n \<noteq> 0x3A"
proof
  assume a: "n < 16" "hex_digit n = 0x3A"
  have "unat (hex_digit n) = 0x3A" using a(2) by simp
  then show False using hex_digit_unat [OF a(1)] by (simp split: if_splits)
qed

lemma byte_split: "of_nat (unat (b::byte) div 16 * 16 + unat b mod 16) = b"
  by simp

lemma fromHex_toHex_app: "fromHex (toHex bs) = bs"
proof (induction bs)
  case Nil
  show ?case by (simp add: toHex_def)
next
  case (Cons b bs)
  have d: "unat b div 16 < 16" using unsigned_less [of b, where 'a = nat] by simp
  have m: "unat b mod 16 < 16" by simp
  have "fromHex (toHex (b # bs)) =
          fromHex (hex_digit (unat b div 16) # hex_digit (unat b mod 16) # toHex bs)"
    by (simp add: toHex_def)
  also have "\<dots> = of_nat (unat b div 16 * 16 + unat b mod 16) # fromHex (toHex bs)"
    by (simp add: hex_value_digit [OF d] hex_value_digit [OF m])
  finally show ?case using Cons.IH byte_split [of b] by simp
qed

lemma colon_notin_toHex: "0x3A \<notin> set (toHex bs)"
proof (induction bs)
  case Nil
  show ?case by (simp add: toHex_def)
next
  case (Cons b bs)
  have d: "unat b div 16 < 16" using unsigned_less [of b, where 'a = nat] by simp
  have m: "unat b mod 16 < 16" by simp
  have s: "toHex (b # bs) = hex_digit (unat b div 16) # hex_digit (unat b mod 16) # toHex bs"
    by (simp add: toHex_def)
  show ?case
    unfolding s using Cons.IH hex_digit_not_colon [OF d] hex_digit_not_colon [OF m]
    by (metis set_ConsD)
qed

lemma split_on_nonempty: "split_on d s \<noteq> []"
  by (induction s) (auto split: list.splits)

lemma split_on_no_delim: "d \<notin> set a \<Longrightarrow> split_on d a = [a]"
  by (induction a) auto

lemma split_on_first: "d \<notin> set a \<Longrightarrow> split_on d (a @ d # r) = a # split_on d r"
  by (induction a) (auto split: list.splits)

lemma split_envelope: "split_on 0x3A (toHex a @ 0x3A # toHex b) = [toHex a, toHex b]"
  by (simp add: split_on_first colon_notin_toHex split_on_no_delim)


lemma length_pkcs7_pad: "length (pkcs7_pad bs) mod 16 = 0" "pkcs7_pad bs \<noteq> []"
proof -
  have "length (pkcs7_pad bs) = length bs + (16 - length bs mod 16)"
    by (simp add: pkcs7_pad_def Let_def)
  also have "\<dots> = length bs div 16 * 16 + 16"
  proof -
    have "length bs mod 16 < 16" by simp
    then show ?thesis using div_mult_mod_eq [of "length bs" 16] by linarith
  qed
  finally show "length (pkcs7_pad bs) mod 16 = 0" by simp
  show "pkcs7_pad bs \<noteq> []" by (simp add: pkcs7_pad_def Let_def)
qed

lemma pkcs7_unpad_pad: "pkcs7_unpad (pkcs7_pad bs) = Some bs"
proof -
  define n where "n = 16 - length bs mod 16"
  have n: "0 < n" "n \<le> 16" by (simp_all add: n_def)
  have p: "pkcs7_pad bs = bs @ replicate n (of_nat n)" by (simp add: pkcs7_pad_def n_def Let_def)
  have l: "last (pkcs7_pad bs) = of_nat n" using n by (simp add: p)
  have u: "unat (of_nat n :: byte) = n" using n by (intro unat_byte) simp
  show ?thesis
    unfolding pkcs7_unpad_def l u using n by (simp add: p Let_def list_all_iff)
qed

lemma blocks16_Nil [simp]: "blocks16 [] = []"
  by (subst blocks16.simps) simp

lemma blocks16_nonempty: "bs \<noteq> [] \<Longrightarrow> blocks16 bs = take 16 bs # blocks16 (drop 16 bs)"
  by (subst blocks16.simps) simp

lemma concat_blocks16: "concat (blocks16 bs) = bs"
proof (induction bs rule: blocks16.induct)
  case (1 bs)
  show ?case
  proof (cases "bs = []")
    case True
    then show ?thesis by simp
  next
    case False
    then have "concat (blocks16 bs) = take 16 bs @ concat (blocks16 (drop 16 bs))"
      by (subst blocks16.simps) simp
    then show ?thesis using 1 False by simp
  qed
qed

lemma blocks16_concat: "list_all (\<lambda>b. length b = 16) bl \<Longrightarrow> blocks16 (concat bl) = bl"
proof (induction bl)
  case Nil
  show ?case by simp
next
  case (Cons b bl)
  then have b: "length b = 16" and r: "blocks16 (concat bl) = bl" by simp_all
  have ne: "concat (b # bl) \<noteq> []" using b by auto
  have "blocks16 (concat (b # bl)) = take 16 (concat (b # bl)) # blocks16 (drop 16 (concat (b # bl)))"
    using ne by (subst blocks16.simps) simp
  then show ?case using b r by simp
qed

lemma blocks16_lengths:
  "length bs mod 16 = 0 \<Longrightarrow> list_all (\<lambda>b. length b = 16) (blocks16 bs)"
proof (induction bs rule: blocks16.induct)
  case (1 bs)
  show ?case
  proof (cases "bs = []")
    case True
    then show ?thesis by simp
  next
    case False
    have ge: "16 \<le> length bs"
    proof (rule ccontr)
      assume "\<not> 16 \<le> length bs"
      then have "length bs mod 16 = length bs" by simp
      with "1.prems" False show False by simp
    qed
    then have m: "length (drop 16 bs) mod 16 = 0"
      using "1.prems" by (simp add: le_mod_geq)
    have e: "blocks16 bs = take 16 bs # blocks16 (drop 16 bs)"
      using False by (subst blocks16.simps) simp
    show ?thesis unfolding e using "1.IH" [OF False m] ge by simp
  qed
qed

lemma xor_bytes_cancel: "length a = length b \<Longrightarrow> xor_bytes (xor_bytes a b) b = a"
proof (induction a arbitrary: b)
  case Nil
  show ?case by (simp add: xor_bytes_def)
next
  case (Cons x a)
  then obtain y b' where b: "b = y # b'" by (cases b) auto
  with Cons have "xor_bytes (xor_bytes a b') b' = a" by simp
  then show ?case by (simp add: b xor_bytes_def xor.assoc)
qed

lemma length_xor_bytes: "length (xor_bytes a b) = min (length a) (length b)"
  by (simp add: xor_bytes_def)

lemma cbc_roundtrip:
  assumes inv: "\<And>b. length b = 16 \<Longrightarrow> length (E b) = 16 \<and> D (E b) = b"
  shows "list_all (\<lambda>b. length b = 16) ps \<Longrightarrow> length prev = 16 \<Longrightarrow>
         cbc_decrypt D prev (cbc_encrypt E prev ps) = ps
         \<and> list_all (\<lambda>b. length b = 16) (cbc_encrypt E prev ps)"
proof (induction ps arbitrary: prev)
  case Nil
  show ?case by simp
next
  case (Cons p ps)
  then have p: "length p = 16" and ps: "list_all (\<lambda>b. length b = 16) ps" by simp_all
  have x: "length (xor_bytes p prev) = 16" using p Cons.prems(2) by (simp add: length_xor_bytes)
  define c where "c = E (xor_bytes p prev)"
  have c: "length c = 16" "D c = xor_bytes p prev" using inv [OF x] by (simp_all add: c_def)
  have bk: "xor_bytes (D c) prev = p"
    using xor_bytes_cancel [of p prev] p Cons.prems(2) by (simp add: c(2))
  show ?case using Cons.IH [OF ps c(1)] bk c(1) by (simp add: c_def [symmetric] Let_def)
qed


section \<open>Properties of the cipher mode\<close>

lemma js_colon: "js '':'' = [0x3A]"
  by (simp add: js_def)

lemma length_cbc_encrypt: "length (cbc_encrypt E prev ps) = length ps"
  by (induction ps arbitrary: prev) (simp_all add: Let_def)

lemma length_concat_blocks:
  "list_all (\<lambda>b. length b = 16) bl \<Longrightarrow> length (concat bl) = 16 * length bl"
  by (induction bl) simp_all

lemma blocks16_eq_Nil: "blocks16 bs = [] \<longleftrightarrow> bs = []"
  by (subst blocks16.simps) simp

lemma aes_256_cbc_roundtrip:
  assumes inv: "\<And>b. length b = 16 \<Longrightarrow>
                  length (aes_encrypt_block c k b) = 16
                  \<and> aes_decrypt_block c k (aes_encrypt_block c k b) = b"
    and k: "length k = 32" and iv: "length iv = 16"
  shows "\<exists>ct. aes_256_cbc_encrypt c k iv plain = Inr ct \<and> aes_256_cbc_decrypt c k iv ct = Inr plain"
proof -
  define ps where "ps = blocks16 (pkcs7_pad plain)"
  define cs where "cs = cbc_encrypt (aes_encrypt_block c k) iv ps"
  have ps16: "list_all (\<lambda>b. length b = 16) ps"
    unfolding ps_def by (rule blocks16_lengths) (rule length_pkcs7_pad(1))
  have ps_ne: "ps \<noteq> []"
    unfolding ps_def by (simp add: blocks16_eq_Nil length_pkcs7_pad(2))
  have rt: "cbc_decrypt (aes_decrypt_block c k) iv cs = ps"
    and cs16: "list_all (\<lambda>b. length b = 16) cs"
    using cbc_roundtrip [of "aes_encrypt_block c k" "aes_decrypt_block c k" ps iv, OF inv ps16 iv]
    by (simp_all add: cs_def)
  have cs_len: "length cs = length ps" by (simp add: cs_def length_cbc_encrypt)
  have len: "length (concat cs) = 16 * length ps"
    using length_concat_blocks [OF cs16] cs_len by simp
  have ne: "concat cs \<noteq> []" using len ps_ne by (metis length_0_conv mult_is_0 zero_neq_numeral)
  have m: "length (concat cs) mod 16 = 0" using len by simp
  have enc: "aes_256_cbc_encrypt c k iv plain = Inr (concat cs)"
    using k iv by (simp add: aes_256_cbc_encrypt_def cs_def ps_def)
  have "pkcs7_unpad (concat (cbc_decrypt (aes_decrypt_block c k) iv (blocks16 (concat cs)))) = Some plain"
    by (simp add: blocks16_concat [OF cs16] rt ps_def concat_blocks16 pkcs7_unpad_pad)
  then have dec: "aes_256_cbc_decrypt c k iv (concat cs) = Inr plain"
    using k iv ne m by (simp add: aes_256_cbc_decrypt_def)
  show ?thesis using enc dec by blast
qed

section \<open>Encrypting and decrypting\<close>

text \<open>
  What \<^verbatim>\<open>decryptData\<close> returns on the envelope that \<^verbatim>\<open>encryptData\<close> produced, for any string:
  the UTF-8 decoding of its UTF-8 encoding. The block cipher has to decrypt what it
  encrypts under the key in use, the key has 32 bytes, and \<^verbatim>\<open>randomBytes(16)\<close> gives 16.
\<close>

lemma demo_key_length: "length (getEncryptionKey demo_manager) = 32"
  by (simp add: demo_manager_def new_SSHKeyManager_def getEncryptionKey_def getMachineKey_def
      demo_world_def demo_crypto_def)

lemma demo_cipher_inverse:
  assumes "length k = 32" "length b = 16"
  shows "length (aes_encrypt_block (crypto demo_world) k b) = 16
         \<and> aes_decrypt_block (crypto demo_world) k (aes_encrypt_block (crypto demo_world) k b) = b"
proof -
  have "length (take 16 k) = 16" using assms(1) by simp
  then show ?thesis
    using assms(2) xor_bytes_cancel [of b "take 16 k"]
    by (simp add: demo_world_def demo_crypto_def length_xor_bytes)
qed

lemma encrypt_then_decrypt:
  assumes inv: "\<forall>b. length b = 16 \<longrightarrow>
                  length (aes_encrypt_block (crypto w) (getEncryptionKey s) b) = 16
                  \<and> aes_decrypt_block (crypto w) (getEncryptionKey s)
                       (aes_encrypt_block (crypto w) (getEncryptionKey s) b) = b"
    and k: "length (getEncryptionKey s) = 32"
    and iv: "length (randomBytes (crypto w) (tick s) 16) = 16"
  shows "\<exists>envelope s'. encryptData w s m = (Inr envelope, s')
           \<and> decryptData w s' envelope = Inr (utf8_decode (utf8_encode m))"
proof -
  define iv0 where "iv0 = randomBytes (crypto w) (tick s) 16"
  obtain ct where enc: "aes_256_cbc_encrypt (crypto w) (getEncryptionKey s) iv0 (utf8_encode m) = Inr ct"
    and dec: "aes_256_cbc_decrypt (crypto w) (getEncryptionKey s) iv0 ct = Inr (utf8_encode m)"
    using aes_256_cbc_roundtrip [of "crypto w" "getEncryptionKey s" iv0 "utf8_encode m"] inv k iv
    unfolding iv0_def by blast
  define s' where "s' = s\<lparr>tick := tick s + 1\<rparr>"
  have key': "getEncryptionKey s' = getEncryptionKey s"
    by (simp add: s'_def getEncryptionKey_def split: option.splits)
  have e: "encryptData w s m = (Inr (toHex iv0 @ 0x3A # toHex ct), s')"
    using enc by (simp add: encryptData_def Let_def iv0_def [symmetric] s'_def js_colon)
  have "decrypt_envelope (crypto w) (getEncryptionKey s) (toHex iv0 @ 0x3A # toHex ct)
          = Inr (utf8_decode (utf8_encode m))"
    using k iv dec
    by (simp add: decrypt_envelope_def split_envelope fromHex_toHex_app iv0_def [symmetric])
  then have "decryptData w s' (toHex iv0 @ 0x3A # toHex ct) = Inr (utf8_decode (utf8_encode m))"
    by (simp add: decryptData_def key')
  then show ?thesis using e by blast
qed

text \<open>
  Claim C1, amended. For every well-formed plaintext string \<open>m\<close> (every surrogate code unit
  is part of a pair) and every 32-byte key of the manager, \<^verbatim>\<open>encryptData\<close> produces an
  envelope under a fresh 16-byte IV, and \<^verbatim>\<open>decryptData\<close> under the same key returns exactly
  \<open>m\<close> from it.
\<close>

theorem encrypt_decrypt_roundtrip:
  assumes "\<forall>b. length b = 16 \<longrightarrow>
                  length (aes_encrypt_block (crypto w) (getEncryptionKey s) b) = 16
                  \<and> aes_decrypt_block (crypto w) (getEncryptionKey s)
                       (aes_encrypt_block (crypto w) (getEncryptionKey s) b) = b"
    and "length (getEncryptionKey s) = 32"
    and "length (randomBytes (crypto w) (tick s) 16) = 16"
    and "well_formed m"
  shows "\<exists>envelope s'. encryptData w s m = (Inr envelope, s') \<and> decryptData w s' envelope = Inr m"
  using encrypt_then_decrypt [OF assms(1-3), of m] utf8_roundtrip [OF assms(4)] by simp

text \<open>The theorem at the string of the repository's own test, in the example environment.\<close>

theorem encrypt_decrypt_roundtrip_witness:
  "length (getEncryptionKey demo_manager) = 32
   \<and> length (randomBytes (crypto demo_world) (tick demo_manager) 16) = 16
   \<and> well_formed (js ''test-ssh-key-content'')
   \<and> (\<exists>envelope s'. encryptData demo_world demo_manager (js ''test-ssh-key-content'') = (Inr envelope, s')
          \<and> decryptData demo_world s' envelope = Inr (js ''test-ssh-key-content''))"
proof -
  have inv: "\<forall>b. length b = 16 \<longrightarrow>
      length (aes_encrypt_block (crypto demo_world) (getEncryptionKey demo_manager) b) = 16
      \<and> aes_decrypt_block (crypto demo_world) (getEncryptionKey demo_manager)
           (aes_encrypt_block (crypto demo_world) (getEncryptionKey demo_manager) b) = b"
    using demo_cipher_inverse [OF demo_key_length] by blast
  have iv: "length (randomBytes (crypto demo_world) (tick demo_manager) 16) = 16"
    by (simp add: demo_world_def demo_crypto_def)
  have wf: "well_formed (js ''test-ssh-key-content'')"
    by (simp add: js_def is_high_surrogate_def is_low_surrogate_def)
  show ?thesis
    using encrypt_decrypt_roundtrip [OF inv demo_key_length iv wf] demo_key_length iv wf by blast
qed

text \<open>
  Claim C1 as stated, for every string, fails at the one-unit string \<^verbatim>\<open>'\uD800'\<close>: its
  UTF-8 bytes are those of U+FFFD, and that is what comes back. The cipher plays no part
  (\<open>encrypt_then_decrypt\<close> holds for every invertible one); the example environment makes the
  statement closed.
\<close>

theorem roundtrip_lone_surrogate_counterexample:
  "\<not> well_formed [0xD800]
   \<and> (\<exists>envelope s'. encryptData demo_world demo_manager [0xD800] = (Inr envelope, s')
          \<and> decryptData demo_world s' envelope = Inr [0xFFFD])
   \<and> \<not> (\<exists>envelope s'. encryptData demo_world demo_manager [0xD800] = (Inr envelope, s')
          \<and> decryptData demo_world s' envelope = Inr [0xD800])"
proof -
  have inv: "\<forall>b. length b = 16 \<longrightarrow>
      length (aes_encrypt_block (crypto demo_world) (getEncryptionKey demo_manager) b) = 16
      \<and> aes_decrypt_block (crypto demo_world) (getEncryptionKey demo_manager)
           (aes_encrypt_block (crypto demo_world) (getEncryptionKey demo_manager) b) = b"
    using demo_cipher_inverse [OF demo_key_length] by blast
  have iv: "length (randomBytes (crypto demo_world) (tick demo_manager) 16) = 16"
    by (simp add: demo_world_def demo_crypto_def)
  have u: "utf8_decode (utf8_encode [0xD800]) = [0xFFFD]"
    by (simp add: is_high_surrogate_def utf16_of_cp_def in_range_def cont_bits_def)
  obtain envelope s' where
    e: "encryptData demo_world demo_manager [0xD800] = (Inr envelope, s')"
    and d: "decryptData demo_world s' envelope = Inr [0xFFFD]"
    using encrypt_then_decrypt [OF inv demo_key_length iv, of "[0xD800]"] u by auto
  have "\<not> well_formed [0xD800]" by (simp add: is_high_surrogate_def)
  moreover have "\<not> (\<exists>envelope s'. encryptData demo_world demo_manager [0xD800] = (Inr envelope, s')
          \<and> decryptData demo_world s' envelope = Inr [0xD800])"
    using e d by auto
  ultimately show ?thesis using e d by blast
qed


section \<open>Loading and saving: the cache\<close>

lemma existsSync_frame:
  "existsSync s p = (b, s1) \<Longrightarrow>
     s1 = s\<lparr>fs_log := fs_log s @ [ExistsSync p]\<rparr> \<and> b = (files s p \<noteq> None \<or> dirs s p)"
  by (auto simp: existsSync_def)

lemma default_keys_path_frame:
  assumes "default_keys_path w s = (r, s1)"
  shows "keysCache s1 = keysCache s" "files s1 = files s" "console s1 = console s"
    "tick s1 = tick s" "passwordKey s1 = passwordKey s" "machineKey s1 = machineKey s"
    "config_keysFilePath s1 = config_keysFilePath s" "writes s1 = writes s"
  using assms
  by (auto simp: default_keys_path_def existsSync_def mkdirpSync_def Let_def writes_def
      split: if_splits)

lemma getKeysFilePath_frame:
  assumes "getKeysFilePath w s = (r, s1)"
  shows "keysCache s1 = keysCache s" "files s1 = files s" "console s1 = console s"
    "tick s1 = tick s" "passwordKey s1 = passwordKey s" "machineKey s1 = machineKey s"
    "config_keysFilePath s1 = config_keysFilePath s" "writes s1 = writes s"
  using assms default_keys_path_frame [of w s r s1]
  by (auto simp: getKeysFilePath_def split: jsval.splits if_splits)

lemma encryptData_frame:
  "encryptData w s d = (r, s1) \<Longrightarrow> s1 = s\<lparr>tick := tick s + 1\<rparr>"
  by (auto simp: encryptData_def Let_def split: sum.splits)

lemma writeFile_frame:
  assumes "writeFile w s p d = (r, s1)"
  shows "keysCache s1 = keysCache s" "console s1 = console s" "tick s1 = tick s"
    "writes s1 = writes s + 1"
  using assms
  by (auto simp: writeFile_def Let_def writes_def split: if_splits option.splits)

lemma writeFile_ok:
  "writeFile w s p d = (Inr u, s1) \<Longrightarrow> files s1 = (files s)(p \<mapsto> d)"
  by (auto simp: writeFile_def Let_def split: if_splits option.splits)

lemma saveKeys_cases:
  assumes "saveKeys w s keys = (r, s')"
  shows "(case r of Inl e \<Rightarrow> keysCache s' = keysCache s | Inr u \<Rightarrow> keysCache s' = Some keys)"
  using assms
  by (auto simp: saveKeys_def split: prod.splits sum.splits
      dest!: getKeysFilePath_frame(1) encryptData_frame writeFile_frame(1))

lemma saveKeys_Inr:
  assumes "saveKeys w s keys = (Inr u, s')"
  shows "\<exists>p env s2 s3. writeFile w s2 p env = (Inr (), s3) \<and> s' = s3\<lparr>keysCache := Some keys\<rparr>"
  using assms
  by (auto simp: saveKeys_def split: prod.splits sum.splits)

text \<open>
  Claim C8. When \<^verbatim>\<open>saveKeys\<close> fails (\<^verbatim>\<open>fs.writeFile\<close> raises, or anything before it), the
  cache is what it was. The cache becomes the new collection only in a run whose
  \<^verbatim>\<open>writeFile\<close> succeeded: the assignment follows the write. (The callers change the cached
  array in place before they call \<^verbatim>\<open>saveKeys\<close>; this theorem is about \<^verbatim>\<open>saveKeys\<close> alone.)
\<close>

theorem saveKeys_failure_keeps_cache:
  assumes "saveKeys w s keys = (r, s')"
  shows "(\<forall>e. r = Inl e \<longrightarrow> keysCache s' = keysCache s)
         \<and> (keysCache s' \<noteq> keysCache s \<longrightarrow>
              (\<exists>p env s2 s3. writeFile w s2 p env = (Inr (), s3) \<and> s' = s3\<lparr>keysCache := Some keys\<rparr>))"
proof (cases r)
  case (Inl e)
  then show ?thesis using saveKeys_cases [OF assms] by simp
next
  case (Inr u)
  then show ?thesis using saveKeys_Inr [of w s keys u s'] assms by simp
qed

text \<open>
  Claim C4. After a successful \<^verbatim>\<open>saveKeys(c)\<close> of a collection \<open>c\<close>, \<^verbatim>\<open>loadKeys()\<close> returns
  \<open>c\<close> exactly and leaves the whole state as it is; the state holds the record of
  file-system calls, so no file is touched.
\<close>

theorem save_then_load:
  assumes "saveKeys w s (KeyArray c) = (Inr u, s')"
  shows "loadKeys w s' = (Inr (KeyArray c), s')"
  using saveKeys_cases [OF assms] by (simp add: loadKeys_def)



lemma readFile_frame:
  "readFile w s p = (r, s1) \<Longrightarrow> s1 = s\<lparr>fs_log := fs_log s @ [ReadFile p]\<rparr>"
  by (auto simp: readFile_def Let_def split: option.splits if_splits)

lemma read_decrypt_parse_frame:
  "read_decrypt_parse w s p = (r, s1) \<Longrightarrow> s1 = s\<lparr>fs_log := fs_log s @ [ReadFile p]\<rparr>"
  by (auto simp: read_decrypt_parse_def split: prod.splits sum.splits dest!: readFile_frame)

lemma load_from_file_Inl:
  "load_from_file w s = (Inl e, s') \<Longrightarrow> getKeysFilePath w s = (Inl e, s')"
  by (auto simp: load_from_file_def load_failed_def Let_def
      split: prod.splits sum.splits if_splits)

lemma load_from_file_Inr:
  "load_from_file w s = (Inr d, s') \<Longrightarrow> keysCache s' = Some d"
  by (auto simp: load_from_file_def load_failed_def Let_def print_def
      split: prod.splits sum.splits if_splits)

lemma loadKeys_Inr: "loadKeys w s = (Inr d, s') \<Longrightarrow> keysCache s' = Some d"
  by (auto simp: loadKeys_def split: option.splits if_splits dest: load_from_file_Inr)

lemma loadKeys_Inl:
  "loadKeys w s = (Inl e, s') \<Longrightarrow> \<not> cache_present s \<and> getKeysFilePath w s = (Inl e, s')"
  by (auto simp: loadKeys_def cache_present_def split: option.splits if_splits
      dest: load_from_file_Inl)

lemma loadKeys_absent:
  "\<not> cache_present s \<Longrightarrow> loadKeys w s = load_from_file w s"
  by (auto simp: loadKeys_def cache_present_def split: option.splits)

text \<open>
  Claim C2, amended. \<^verbatim>\<open>loadKeys\<close> has these outcomes and no other. A cache that is present
  is returned, the state unchanged (no file-system call). Without one: when the file is
  absent the cache becomes the empty collection, which is returned; when reading,
  decrypting or parsing fails the error is printed, the cache becomes the empty collection
  and it is returned. \<^verbatim>\<open>loadKeys\<close> raises only when resolving the path of the store raises
  (\<^verbatim>\<open>getKeysFilePath\<close>, called before the \<^verbatim>\<open>try\<close>, cannot create the data directory), and then
  the cache is untouched. Whatever it returns is what the cache then holds.
\<close>

theorem loadKeys_outcomes:
  "(\<forall>d. keysCache s = Some d \<and> truthy_doc d \<longrightarrow> loadKeys w s = (Inr d, s))
   \<and> (\<forall>p s1 s2. \<not> cache_present s \<and> getKeysFilePath w s = (Inr p, s1)
          \<and> existsSync s1 p = (False, s2)
        \<longrightarrow> loadKeys w s = (Inr (KeyArray []), s2\<lparr>keysCache := Some (KeyArray [])\<rparr>))
   \<and> (\<forall>p s1 s2 e s3. \<not> cache_present s \<and> getKeysFilePath w s = (Inr p, s1)
          \<and> existsSync s1 p = (True, s2) \<and> read_decrypt_parse w s2 p = (Inl e, s3)
        \<longrightarrow> loadKeys w s
              = (Inr (KeyArray []), (print (ErrorLoadingKeys e) s3)\<lparr>keysCache := Some (KeyArray [])\<rparr>))
   \<and> (\<forall>e s'. loadKeys w s = (Inl e, s')
        \<longrightarrow> \<not> cache_present s \<and> getKeysFilePath w s = (Inl e, s') \<and> keysCache s' = keysCache s)
   \<and> (\<forall>d s'. loadKeys w s = (Inr d, s') \<longrightarrow> keysCache s' = Some d)"
proof (intro conjI allI impI)
  fix d assume "keysCache s = Some d \<and> truthy_doc d"
  then show "loadKeys w s = (Inr d, s)" by (simp add: loadKeys_def)
next
  fix p s1 s2
  assume "\<not> cache_present s \<and> getKeysFilePath w s = (Inr p, s1) \<and> existsSync s1 p = (False, s2)"
  then show "loadKeys w s = (Inr (KeyArray []), s2\<lparr>keysCache := Some (KeyArray [])\<rparr>)"
    by (simp add: loadKeys_absent load_from_file_def)
next
  fix p s1 s2 e s3
  assume "\<not> cache_present s \<and> getKeysFilePath w s = (Inr p, s1)
          \<and> existsSync s1 p = (True, s2) \<and> read_decrypt_parse w s2 p = (Inl e, s3)"
  then show "loadKeys w s
      = (Inr (KeyArray []), (print (ErrorLoadingKeys e) s3)\<lparr>keysCache := Some (KeyArray [])\<rparr>)"
    by (simp add: loadKeys_absent load_from_file_def load_failed_def)
next
  fix e s' assume l: "loadKeys w s = (Inl e, s')"
  show "\<not> cache_present s" using loadKeys_Inl [OF l] by simp
  show "getKeysFilePath w s = (Inl e, s')" using loadKeys_Inl [OF l] by simp
  then show "keysCache s' = keysCache s" by (rule getKeysFilePath_frame(1))
next
  fix d s' assume "loadKeys w s = (Inr d, s')"
  then show "keysCache s' = Some d" by (rule loadKeys_Inr)
qed


lemma demo_world_simps:
  "crypto demo_world = demo_crypto" "os demo_world = demo_os" "disk demo_world = demo_disk"
  "json demo_world = demo_json" "inquirer demo_world = demo_prompts"
  by (simp_all add: demo_world_def)

lemma demo_world_readonly_simps:
  "crypto demo_world_readonly = demo_crypto" "os demo_world_readonly = demo_os"
  "json demo_world_readonly = demo_json" "inquirer demo_world_readonly = demo_prompts"
  "read_fails (disk demo_world_readonly) = (\<lambda>p. False)"
  "mkdirp_fails (disk demo_world_readonly) = (\<lambda>p. True)"
  by (simp_all add: demo_world_readonly_def demo_world_def demo_disk_def)

lemma demo_world_disk_full_simps:
  "crypto demo_world_disk_full = demo_crypto" "os demo_world_disk_full = demo_os"
  "json demo_world_disk_full = demo_json" "inquirer demo_world_disk_full = demo_prompts"
  "read_fails (disk demo_world_disk_full) = (\<lambda>p. False)"
  "mkdirp_fails (disk demo_world_disk_full) = (\<lambda>p. False)"
  "write_fails (disk demo_world_disk_full) = (\<lambda>p d. Some None)"
  by (simp_all add: demo_world_disk_full_def demo_world_def demo_disk_def)

lemma demo_os_simps:
  "cwd demo_os = js ''/work''" "homedir demo_os = js ''/home/u''"
  "path_join demo_os = (\<lambda>a b. a @ js ''/'' @ b)" "is_win32 demo_os = False"
  "date_now demo_os = (\<lambda>t. js ''2025-01-01T00:00:0'' @ [hex_digit (t mod 10)])"
  by (simp_all add: demo_os_def)

lemma demo_disk_simps:
  "read_fails demo_disk = (\<lambda>p. False)" "write_fails demo_disk = (\<lambda>p d. None)"
  "mkdirp_fails demo_disk = (\<lambda>p. False)"
  "readdir_result demo_disk = (\<lambda>p. if p = js ''/keys'' \<or> p = js ''/home/u/.ssh''
      then Inr [js ''a.pub'', js ''notes.txt'', js ''b.pub''] else Inl FsError)"
  by (simp_all add: demo_disk_def)

lemma demo_crypto_simps:
  "randomBytes demo_crypto = (\<lambda>t n. replicate n (of_nat t))"
  "randomUUID demo_crypto = (\<lambda>t. js ''uuid-'' @ [hex_digit (t mod 16)])"
  by (simp_all add: demo_crypto_def)

lemma demo_manager_simps:
  "config_keysFilePath demo_manager = Null" "passwordKey demo_manager = None"
  "keysCache demo_manager = None" "files demo_manager = Map.empty"
  "dirs demo_manager = (\<lambda>p. False)" "console demo_manager = []" "fs_log demo_manager = []"
  "tick demo_manager = 0"
  by (simp_all add: demo_manager_def new_SSHKeyManager_def)

lemmas demo_simps =
  demo_world_simps demo_world_readonly_simps demo_world_disk_full_simps demo_os_simps
  demo_disk_simps demo_crypto_simps demo_manager_simps

lemma js_data_path: "js ''/work'' @ js ''/'' @ js ''data'' = js ''/work/data''"
  "js ''/work/data'' @ js ''/'' @ js ''ssh_keys.enc'' = js ''/work/data/ssh_keys.enc''"
  by (simp_all add: js_def)

lemma demo_path:
  "getKeysFilePath demo_world demo_manager
     = (Inr (js ''/work/data/ssh_keys.enc''),
        demo_manager\<lparr>fs_log := [ExistsSync (js ''/work/data''), MkdirpSync (js ''/work/data'')],
                      dirs := (\<lambda>p. False)(js ''/work/data'' := True)\<rparr>)"
  by (simp add: getKeysFilePath_def default_keys_path_def existsSync_def mkdirpSync_def demo_simps
      js_data_path Let_def)

text \<open>
  Claim C2 as stated, "never raises", fails in a working directory where \<^verbatim>\<open>data\<close> does not
  exist and cannot be created: \<^verbatim>\<open>fs.mkdirpSync\<close> throws inside \<^verbatim>\<open>getKeysFilePath\<close>, outside
  the \<^verbatim>\<open>try\<close> of \<^verbatim>\<open>loadKeys\<close>.
\<close>

theorem loadKeys_raises_counterexample:
  "\<not> cache_present demo_manager
   \<and> fst (loadKeys demo_world_readonly demo_manager) = Inl FsError"
  by (simp add: cache_present_def loadKeys_def load_from_file_def getKeysFilePath_def
      default_keys_path_def existsSync_def mkdirpSync_def demo_simps Let_def)


lemma demo_machineKey: "length (machineKey demo_manager) = 32"
  using demo_key_length by (simp add: getEncryptionKey_def demo_manager_simps)

lemma encryptData_Inr:
  assumes "length (getEncryptionKey s) = 32" "length (randomBytes (crypto w) (tick s) 16) = 16"
  shows "\<exists>env. encryptData w s d = (Inr env, s\<lparr>tick := tick s + 1\<rparr>)"
  using assms by (simp add: encryptData_def aes_256_cbc_encrypt_def Let_def)

lemma saveKeys_run:
  assumes "getKeysFilePath w s = (Inr p, s1)"
    and "length (getEncryptionKey s1) = 32" "length (randomBytes (crypto w) (tick s1) 16) = 16"
  shows "\<exists>env. saveKeys w s keys =
           (case writeFile w (s1\<lparr>tick := tick s1 + 1\<rparr>) p env of
              (Inl e, s3) \<Rightarrow> (Inl e, s3)
            | (Inr u, s3) \<Rightarrow> (Inr (), s3\<lparr>keysCache := Some keys\<rparr>))"
proof -
  obtain env where "encryptData w s1 (JSON_stringify (json w) keys) = (Inr env, s1\<lparr>tick := tick s1 + 1\<rparr>)"
    using encryptData_Inr [OF assms(2,3)] by blast
  then show ?thesis using assms(1) by (auto simp: saveKeys_def)
qed

lemma getEncryptionKey_update [simp]:
  "getEncryptionKey (s\<lparr>fs_log := l\<rparr>) = getEncryptionKey s"
  "getEncryptionKey (s\<lparr>dirs := d\<rparr>) = getEncryptionKey s"
  "getEncryptionKey (s\<lparr>files := f\<rparr>) = getEncryptionKey s"
  "getEncryptionKey (s\<lparr>tick := t\<rparr>) = getEncryptionKey s"
  "getEncryptionKey (s\<lparr>console := c\<rparr>) = getEncryptionKey s"
  "getEncryptionKey (s\<lparr>keysCache := k\<rparr>) = getEncryptionKey s"
  by (simp_all add: getEncryptionKey_def split: option.splits)

lemma getKeysFilePath_default:
  assumes "config_keysFilePath s = Null"
    and "\<not> mkdirp_fails (disk w) (path_join (os w) (cwd (os w)) (js ''data''))"
  shows "\<exists>s1. getKeysFilePath w s
                = (Inr (path_join (os w) (path_join (os w) (cwd (os w)) (js ''data'')) (js ''ssh_keys.enc'')), s1)
              \<and> tick s1 = tick s \<and> getEncryptionKey s1 = getEncryptionKey s
              \<and> (\<forall>p. dirs s1 p \<longrightarrow> dirs s p \<or> p = path_join (os w) (cwd (os w)) (js ''data''))"
proof (cases "files s (path_join (os w) (cwd (os w)) (js ''data'')) \<noteq> None
              \<or> dirs s (path_join (os w) (cwd (os w)) (js ''data''))")
  case True
  then show ?thesis
    using assms(1)
    by (auto simp: getKeysFilePath_def default_keys_path_def existsSync_def Let_def)
next
  case False
  then show ?thesis
    using assms
    by (simp add: getKeysFilePath_def default_keys_path_def existsSync_def mkdirpSync_def Let_def)
qed

lemma saveKeys_completes:
  assumes "config_keysFilePath s = Null"
    and "length (getEncryptionKey s) = 32"
    and "length (randomBytes (crypto w) (tick s) 16) = 16"
    and "\<not> mkdirp_fails (disk w) (path_join (os w) (cwd (os w)) (js ''data''))"
    and "\<forall>d. write_fails (disk w)
            (path_join (os w) (path_join (os w) (cwd (os w)) (js ''data'')) (js ''ssh_keys.enc'')) d = None"
    and "\<not> dirs s (path_join (os w) (path_join (os w) (cwd (os w)) (js ''data'')) (js ''ssh_keys.enc''))"
    and "path_join (os w) (path_join (os w) (cwd (os w)) (js ''data'')) (js ''ssh_keys.enc'')
           \<noteq> path_join (os w) (cwd (os w)) (js ''data'')"
  shows "\<exists>s'. saveKeys w s keys = (Inr (), s')"
proof -
  define D where "D = path_join (os w) (cwd (os w)) (js ''data'')"
  define P where "P = path_join (os w) D (js ''ssh_keys.enc'')"
  obtain s1 where g: "getKeysFilePath w s = (Inr P, s1)"
    and s1: "tick s1 = tick s" "getEncryptionKey s1 = getEncryptionKey s"
    and d1: "\<forall>p. dirs s1 p \<longrightarrow> dirs s p \<or> p = D"
    using getKeysFilePath_default [OF assms(1,4)] unfolding D_def P_def by blast
  have nd: "\<not> dirs s1 P" using d1 assms(6,7) unfolding D_def P_def by blast
  obtain env where "saveKeys w s keys =
       (case writeFile w (s1\<lparr>tick := tick s1 + 1\<rparr>) P env of
          (Inl e, s3) \<Rightarrow> (Inl e, s3)
        | (Inr u, s3) \<Rightarrow> (Inr (), s3\<lparr>keysCache := Some keys\<rparr>))"
    using saveKeys_run [OF g, of keys] assms(2,3) s1 by auto
  then show ?thesis
    using assms(5) nd by (simp add: writeFile_def Let_def D_def P_def)
qed

lemma demo_paths_differ:
  "path_join (os demo_world) (path_join (os demo_world) (cwd (os demo_world)) (js ''data'')) (js ''ssh_keys.enc'')
     \<noteq> path_join (os demo_world) (cwd (os demo_world)) (js ''data'')"
  by (simp add: demo_simps js_def)

text \<open>The theorem in the example environment, where the save succeeds.\<close>

theorem save_then_load_witness:
  "fst (saveKeys demo_world demo_manager (KeyArray [demo_key ''id-1'' ''github'' ''ssh-rsa AAAA''])) = Inr ()
   \<and> loadKeys demo_world
        (snd (saveKeys demo_world demo_manager (KeyArray [demo_key ''id-1'' ''github'' ''ssh-rsa AAAA''])))
      = (Inr (KeyArray [demo_key ''id-1'' ''github'' ''ssh-rsa AAAA'']),
         snd (saveKeys demo_world demo_manager (KeyArray [demo_key ''id-1'' ''github'' ''ssh-rsa AAAA''])))"
proof -
  obtain s' where
    h: "saveKeys demo_world demo_manager (KeyArray [demo_key ''id-1'' ''github'' ''ssh-rsa AAAA'']) = (Inr (), s')"
    using saveKeys_completes [of demo_manager demo_world] demo_key_length demo_paths_differ
    by (auto simp: demo_simps)
  show ?thesis using save_then_load [OF h] h by simp
qed

lemma saveKeys_write_fault:
  assumes "config_keysFilePath s = Null"
    and "length (getEncryptionKey s) = 32"
    and "length (randomBytes (crypto w) (tick s) 16) = 16"
    and "\<not> mkdirp_fails (disk w) (path_join (os w) (cwd (os w)) (js ''data''))"
    and "\<forall>d. write_fails (disk w)
            (path_join (os w) (path_join (os w) (cwd (os w)) (js ''data'')) (js ''ssh_keys.enc'')) d \<noteq> None"
  shows "\<exists>s'. saveKeys w s keys = (Inl FsError, s')"
proof -
  define D where "D = path_join (os w) (cwd (os w)) (js ''data'')"
  define P where "P = path_join (os w) D (js ''ssh_keys.enc'')"
  obtain s1 where g: "getKeysFilePath w s = (Inr P, s1)"
    and s1: "tick s1 = tick s" "getEncryptionKey s1 = getEncryptionKey s"
    using getKeysFilePath_default [OF assms(1,4)] unfolding D_def P_def by blast
  obtain env where "saveKeys w s keys =
       (case writeFile w (s1\<lparr>tick := tick s1 + 1\<rparr>) P env of
          (Inl e, s3) \<Rightarrow> (Inl e, s3)
        | (Inr u, s3) \<Rightarrow> (Inr (), s3\<lparr>keysCache := Some keys\<rparr>))"
    using saveKeys_run [OF g, of keys] assms(2,3) s1 by auto
  moreover obtain left where "write_fails (disk w) P env = Some left"
    using assms(5) unfolding D_def P_def by blast
  ultimately show ?thesis
    by (simp add: writeFile_def Let_def)
qed

lemma demo_loaded_simps:
  "config_keysFilePath demo_loaded = Null" "passwordKey demo_loaded = None"
  "machineKey demo_loaded = machineKey demo_manager"
  "keysCache demo_loaded = Some (KeyArray [demo_key ''id-1'' ''github'' ''ssh-rsa AAAA''])"
  "files demo_loaded = Map.empty" "dirs demo_loaded = (\<lambda>p. False)" "console demo_loaded = []"
  "fs_log demo_loaded = []" "tick demo_loaded = 0"
  by (simp_all add: demo_loaded_def demo_manager_simps)

text \<open>The theorem where every write fails: the loaded key stays in the cache.\<close>

theorem saveKeys_failure_keeps_cache_witness:
  "fst (saveKeys demo_world_disk_full demo_loaded (KeyArray [])) = Inl FsError
   \<and> keysCache (snd (saveKeys demo_world_disk_full demo_loaded (KeyArray [])))
       = Some (KeyArray [demo_key ''id-1'' ''github'' ''ssh-rsa AAAA''])"
proof -
  obtain s' where h: "saveKeys demo_world_disk_full demo_loaded (KeyArray []) = (Inl FsError, s')"
    using saveKeys_write_fault [of demo_loaded demo_world_disk_full] demo_machineKey
    by (auto simp: demo_simps demo_loaded_simps getEncryptionKey_def)
  show ?thesis using saveKeys_failure_keeps_cache [OF h] h by (simp add: demo_loaded_simps)
qed

lemma demo_corrupt_simps:
  "config_keysFilePath demo_corrupt = Null" "passwordKey demo_corrupt = None"
  "machineKey demo_corrupt = machineKey demo_manager"
  "keysCache demo_corrupt = None"
  "files demo_corrupt = [js ''/work/data/ssh_keys.enc'' \<mapsto> js ''garbage'']"
  "dirs demo_corrupt = (\<lambda>p. p = js ''/work/data'')" "console demo_corrupt = []"
  "fs_log demo_corrupt = []" "tick demo_corrupt = 0"
  by (simp_all add: demo_corrupt_def demo_manager_simps)

lemma garbage_is_no_envelope: "decrypt_envelope c k (js ''garbage'') = Inl CryptoError"
  by (simp add: decrypt_envelope_def js_def hex_value_def)

text \<open>The theorem at a cache that holds the empty array, at a missing file, and at a file
  that is no envelope.\<close>

theorem loadKeys_outcomes_witness:
  "loadKeys demo_world demo_loaded_empty = (Inr (KeyArray []), demo_loaded_empty)
   \<and> fst (loadKeys demo_world demo_manager) = Inr (KeyArray [])
   \<and> keysCache (snd (loadKeys demo_world demo_manager)) = Some (KeyArray [])
   \<and> fst (loadKeys demo_world demo_corrupt) = Inr (KeyArray [])
   \<and> keysCache (snd (loadKeys demo_world demo_corrupt)) = Some (KeyArray [])
   \<and> console (snd (loadKeys demo_world demo_corrupt)) = [ErrorLoadingKeys CryptoError]"
proof -
  have a: "loadKeys demo_world demo_loaded_empty = (Inr (KeyArray []), demo_loaded_empty)"
    using loadKeys_outcomes [of demo_loaded_empty demo_world]
    by (simp add: demo_loaded_empty_def)
  have nb: "\<not> cache_present demo_manager" by (simp add: cache_present_def demo_simps)
  have b: "loadKeys demo_world demo_manager =
             (Inr (KeyArray []),
              (demo_manager\<lparr>fs_log := [ExistsSync (js ''/work/data''), MkdirpSync (js ''/work/data''),
                                       ExistsSync (js ''/work/data/ssh_keys.enc'')],
                      dirs := (\<lambda>p. False)(js ''/work/data'' := True)\<rparr>)\<lparr>keysCache := Some (KeyArray [])\<rparr>)"
    using loadKeys_outcomes [of demo_manager demo_world] nb demo_path
    by (simp add: existsSync_def demo_simps js_def)
  have nc: "\<not> cache_present demo_corrupt" by (simp add: cache_present_def demo_corrupt_simps)
  have pc: "getKeysFilePath demo_world demo_corrupt
              = (Inr (js ''/work/data/ssh_keys.enc''),
                 demo_corrupt\<lparr>fs_log := [ExistsSync (js ''/work/data'')]\<rparr>)"
    by (simp add: getKeysFilePath_def default_keys_path_def existsSync_def demo_simps
        demo_corrupt_simps js_data_path Let_def)
  have ec: "existsSync (demo_corrupt\<lparr>fs_log := [ExistsSync (js ''/work/data'')]\<rparr>)
              (js ''/work/data/ssh_keys.enc'')
            = (True, demo_corrupt\<lparr>fs_log := [ExistsSync (js ''/work/data''),
                                               ExistsSync (js ''/work/data/ssh_keys.enc'')]\<rparr>)"
    by (simp add: existsSync_def demo_corrupt_simps)
  have rc: "read_decrypt_parse demo_world
               (demo_corrupt\<lparr>fs_log := [ExistsSync (js ''/work/data''),
                                        ExistsSync (js ''/work/data/ssh_keys.enc'')]\<rparr>)
               (js ''/work/data/ssh_keys.enc'')
            = (Inl CryptoError,
               demo_corrupt\<lparr>fs_log := [ExistsSync (js ''/work/data''),
                                        ExistsSync (js ''/work/data/ssh_keys.enc''),
                                        ReadFile (js ''/work/data/ssh_keys.enc'')]\<rparr>)"
    by (simp add: read_decrypt_parse_def readFile_def decryptData_def garbage_is_no_envelope
        demo_simps demo_corrupt_simps Let_def)
  have c: "loadKeys demo_world demo_corrupt =
             (Inr (KeyArray []),
              (print (ErrorLoadingKeys CryptoError)
                 (demo_corrupt\<lparr>fs_log := [ExistsSync (js ''/work/data''),
                                        ExistsSync (js ''/work/data/ssh_keys.enc''),
                                        ReadFile (js ''/work/data/ssh_keys.enc'')]\<rparr>))
                \<lparr>keysCache := Some (KeyArray [])\<rparr>)"
    using loadKeys_outcomes [of demo_corrupt demo_world] nc pc ec rc by blast
  show ?thesis
    unfolding a b c by (simp add: print_def demo_corrupt_simps)
qed


section \<open>Editing and deleting: absent and present ids\<close>

lemma findIndex_None: "findIndex P xs = None \<longleftrightarrow> list_all (\<lambda>x. \<not> P x) xs"
  by (induction xs) auto

lemma findIndex_Some:
  "findIndex P xs = Some i \<Longrightarrow> i < length xs \<and> P (xs ! i)"
proof (induction xs arbitrary: i)
  case Nil
  then show ?case by simp
next
  case (Cons x xs)
  show ?case
  proof (cases "P x")
    case True
    with Cons.prems show ?thesis by simp
  next
    case False
    with Cons.prems obtain j where j: "findIndex P xs = Some j" "i = Suc j" by auto
    with Cons.IH [OF j(1)] show ?thesis by simp
  qed
qed

lemma findIndex_splice1:
  assumes "distinct (map f xs)" "findIndex (\<lambda>k. f k = v) xs = Some i"
  shows "findIndex (\<lambda>k. f k = v) (splice1 i xs) = None"
proof -
  have i: "i < length xs" "f (xs ! i) = v" using findIndex_Some [OF assms(2)] by simp_all
  define ys where "ys = map f xs"
  have li: "i < length ys" and yi: "ys ! i = v" using i by (simp_all add: ys_def)
  have "ys = take i ys @ ys ! i # drop (Suc i) ys" using li by (rule id_take_nth_drop)
  then have "distinct (take i ys @ ys ! i # drop (Suc i) ys)" using assms(1) ys_def by simp
  then have "v \<notin> set (take i ys) \<and> v \<notin> set (drop (Suc i) ys)" using yi by auto
  then have "v \<notin> set (map f (splice1 i xs))"
    by (simp add: splice1_def ys_def take_map drop_map)
  then have "\<forall>x \<in> set (splice1 i xs). f x \<noteq> v" by auto
  then show ?thesis by (simp add: findIndex_None list_all_iff)
qed

lemma print_simps [simp]:
  "keysCache (print l s) = keysCache s" "files (print l s) = files s"
  "fs_log (print l s) = fs_log s" "tick (print l s) = tick s"
  "console (print l s) = console s @ [l]" "dirs (print l s) = dirs s"
  "writes (print l s) = writes s"
  by (simp_all add: print_def writes_def)

lemma loadKeys_hit:
  "keysCache s = Some (KeyArray keys) \<Longrightarrow> loadKeys w s = (Inr (KeyArray keys), s)"
  by (simp add: loadKeys_def)

lemma writes_update [simp]:
  "writes (s\<lparr>fs_log := fs_log s @ [ExistsSync p]\<rparr>) = writes s"
  "writes (s\<lparr>fs_log := fs_log s @ [ReadFile p]\<rparr>) = writes s"
  "writes (s\<lparr>fs_log := fs_log s @ [MkdirpSync p]\<rparr>) = writes s"
  "writes (s\<lparr>fs_log := fs_log s @ [Readdir p]\<rparr>) = writes s"
  "writes (s\<lparr>keysCache := k\<rparr>) = writes s"
  "writes (s\<lparr>tick := t\<rparr>) = writes s"
  "writes (s\<lparr>console := c\<rparr>) = writes s"
  "writes (s\<lparr>dirs := d\<rparr>) = writes s"
  "writes (s\<lparr>files := f\<rparr>) = writes s"
  by (simp_all add: writes_def)

lemma getKeysFilePath_keeps:
  "getKeysFilePath w s = (r, s1) \<Longrightarrow>
     files s1 = files s \<and> tick s1 = tick s \<and> writes s1 = writes s \<and> keysCache s1 = keysCache s
     \<and> console s1 = console s"
  using getKeysFilePath_frame [of w s r s1] by simp

lemma load_from_file_frame:
  assumes "load_from_file w s = (r, s1)"
  shows "files s1 = files s" "writes s1 = writes s" "tick s1 = tick s"
  using assms
  by (auto simp: load_from_file_def load_failed_def Let_def existsSync_def writes_def
      split: prod.splits sum.splits if_splits
      dest!: getKeysFilePath_keeps read_decrypt_parse_frame)

lemma loadKeys_frame:
  assumes "loadKeys w s = (r, s1)"
  shows "files s1 = files s" "writes s1 = writes s" "tick s1 = tick s"
  using assms load_from_file_frame [of w s r s1]
  by (auto simp: loadKeys_def split: option.splits if_splits)

lemma editKey_not_found:
  assumes "loadKeys w s = (Inr (KeyArray keys), s1)" "list_all (\<lambda>k. id' k \<noteq> Str kid) keys"
  shows "editKey w s kid options = (Inr (), print (KeyNotFound kid) s1)"
proof -
  have "findIndex (\<lambda>k. id' k = Str kid) keys = None" using assms(2) by (simp add: findIndex_None)
  then show ?thesis using assms(1) by (simp add: editKey_def editKey_try_def)
qed

lemma deleteKey_not_found:
  assumes "loadKeys w s = (Inr (KeyArray keys), s1)" "list_all (\<lambda>k. id' k \<noteq> Str kid) keys"
  shows "deleteKey w s kid force = (Inr (), print (KeyNotFound kid) s1)"
proof -
  have "findIndex (\<lambda>k. id' k = Str kid) keys = None" using assms(2) by (simp add: findIndex_None)
  then show ?thesis using assms(1) by (simp add: deleteKey_def deleteKey_try_def)
qed

lemma deleteKey_found:
  assumes "loadKeys w s = (Inr (KeyArray keys), s1)"
    and "findIndex (\<lambda>k. id' k = Str kid) keys = Some i"
    and "deleteKey w s kid True = (r, s')"
  shows "keysCache s' = Some (KeyArray (splice1 i keys))"
proof -
  define s2 where "s2 = s1\<lparr>keysCache := Some (KeyArray (splice1 i keys))\<rparr>"
  obtain r3 s3 where sv: "saveKeys w s2 (KeyArray (splice1 i keys)) = (r3, s3)"
    by (cases "saveKeys w s2 (KeyArray (splice1 i keys))") auto
  have c3: "keysCache s3 = Some (KeyArray (splice1 i keys))"
    using saveKeys_cases [OF sv] by (cases r3) (simp_all add: s2_def)
  show ?thesis
    using assms sv c3
    by (cases r3) (auto simp: deleteKey_def deleteKey_try_def Let_def s2_def [symmetric])
qed

text \<open>
  Claim C5, amended. When the collection that \<^verbatim>\<open>loadKeys\<close> returns has no record of the given
  id, \<^verbatim>\<open>editKey\<close> and \<^verbatim>\<open>deleteKey\<close> print \<^verbatim>\<open>Key with ID "..." not found.\<close> and return normally:
  the promise is fulfilled, nothing is raised (the program has no \<^verbatim>\<open>NotFoundError\<close>). The
  operation is aborted there: the state is the one \<^verbatim>\<open>loadKeys\<close> left plus the printed line,
  so no file is changed, \<^verbatim>\<open>writeFile\<close> is not called and the cached collection is the loaded
  one. When the ids of the collection are distinct, deleting an id (with \<^verbatim>\<open>--force\<close>) and
  deleting it again reports the second time that the key is not found.
\<close>

theorem absent_id_is_reported:
  assumes "loadKeys w s = (Inr (KeyArray keys), s1)"
  shows "(list_all (\<lambda>k. id' k \<noteq> Str kid) keys \<longrightarrow>
            editKey w s kid options = (Inr (), print (KeyNotFound kid) s1)
          \<and> deleteKey w s kid force = (Inr (), print (KeyNotFound kid) s1)
          \<and> files s1 = files s \<and> writes s1 = writes s
          \<and> keysCache s1 = Some (KeyArray keys))
       \<and> (distinct (map id' keys) \<longrightarrow>
            deleteKey w (snd (deleteKey w s kid True)) kid force
              = (Inr (), print (KeyNotFound kid) (snd (deleteKey w s kid True))))"
proof (intro conjI impI)
  assume a: "list_all (\<lambda>k. id' k \<noteq> Str kid) keys"
  show "editKey w s kid options = (Inr (), print (KeyNotFound kid) s1)"
    using editKey_not_found [OF assms a] .
  show "deleteKey w s kid force = (Inr (), print (KeyNotFound kid) s1)"
    using deleteKey_not_found [OF assms a] .
  show "files s1 = files s" "writes s1 = writes s" using loadKeys_frame [OF assms] by simp_all
  show "keysCache s1 = Some (KeyArray keys)" using loadKeys_Inr [OF assms] .
next
  assume d: "distinct (map id' keys)"
  define s' where "s' = snd (deleteKey w s kid True)"
  obtain r where del: "deleteKey w s kid True = (r, s')"
    by (cases "deleteKey w s kid True") (simp add: s'_def)
  have "\<exists>keys'. keysCache s' = Some (KeyArray keys') \<and> list_all (\<lambda>k. id' k \<noteq> Str kid) keys'"
  proof (cases "findIndex (\<lambda>k. id' k = Str kid) keys")
    case None
    then have na: "list_all (\<lambda>k. id' k \<noteq> Str kid) keys" by (simp add: findIndex_None)
    have "s' = print (KeyNotFound kid) s1"
      using deleteKey_not_found [OF assms na, of True] del by simp
    then show ?thesis using loadKeys_Inr [OF assms] na by auto
  next
    case (Some i)
    have "findIndex (\<lambda>k. id' k = Str kid) (splice1 i keys) = None"
      using findIndex_splice1 [OF d Some] .
    then show ?thesis
      using deleteKey_found [OF assms Some del] by (auto simp: findIndex_None)
  qed
  then obtain keys' where k: "keysCache s' = Some (KeyArray keys')"
    "list_all (\<lambda>k. id' k \<noteq> Str kid) keys'" by blast
  show "deleteKey w (snd (deleteKey w s kid True)) kid force
          = (Inr (), print (KeyNotFound kid) (snd (deleteKey w s kid True)))"
    using deleteKey_not_found [OF loadKeys_hit [OF k(1)] k(2)] by (simp add: s'_def)
qed


lemma demo_loaded_hit:
  "loadKeys demo_world demo_loaded
     = (Inr (KeyArray [demo_key ''id-1'' ''github'' ''ssh-rsa AAAA'']), demo_loaded)"
  by (rule loadKeys_hit) (simp add: demo_loaded_simps)

lemma demo_key_simps:
  "id' (demo_key i n k) = Str (js i)" "name (demo_key i n k) = Str (js n)"
  "tag (demo_key i n k) = Null" "key (demo_key i n k) = Str (js k)"
  "key_type (demo_key i n k) = Str (js ''RSA'')" "created (demo_key i n k) = Str (js ''2020'')"
  "last_modified (demo_key i n k) = Str (js ''2020'')"
  by (simp_all add: demo_key_def)

text \<open>The theorem on a store of one key: an id that was never there, and the key's own id
  deleted twice.\<close>

theorem absent_id_is_reported_witness:
  "editKey demo_world demo_loaded (js ''no-such-id'') demo_options
     = (Inr (), print (KeyNotFound (js ''no-such-id'')) demo_loaded)
   \<and> deleteKey demo_world demo_loaded (js ''no-such-id'') True
     = (Inr (), print (KeyNotFound (js ''no-such-id'')) demo_loaded)
   \<and> deleteKey demo_world (snd (deleteKey demo_world demo_loaded (js ''id-1'') True)) (js ''id-1'') True
     = (Inr (), print (KeyNotFound (js ''id-1'')) (snd (deleteKey demo_world demo_loaded (js ''id-1'') True)))"
proof -
  have a: "list_all (\<lambda>k. id' k \<noteq> Str (js ''no-such-id'')) [demo_key ''id-1'' ''github'' ''ssh-rsa AAAA'']"
    by (simp add: demo_key_simps js_def)
  have d: "distinct (map id' [demo_key ''id-1'' ''github'' ''ssh-rsa AAAA''])" by simp
  show ?thesis
    using absent_id_is_reported [OF demo_loaded_hit, of "js ''no-such-id''" demo_options True]
      absent_id_is_reported [OF demo_loaded_hit, of "js ''id-1''" demo_options True] a d
    by simp
qed

text \<open>
  Claim C5 as stated, "fails with NotFoundError", fails: for an absent id both promises are
  fulfilled (\<open>Inr ()\<close>), and the only report is the line on the console.
\<close>

theorem absent_id_not_raised_counterexample:
  "fst (deleteKey demo_world demo_loaded (js ''no-such-id'') True) = Inr ()
   \<and> console (snd (deleteKey demo_world demo_loaded (js ''no-such-id'') True))
       = [KeyNotFound (js ''no-such-id'')]
   \<and> fst (editKey demo_world demo_loaded (js ''no-such-id'') demo_options) = Inr ()
   \<and> console (snd (editKey demo_world demo_loaded (js ''no-such-id'') demo_options))
       = [KeyNotFound (js ''no-such-id'')]"
proof -
  have a: "list_all (\<lambda>k. id' k \<noteq> Str (js ''no-such-id'')) [demo_key ''id-1'' ''github'' ''ssh-rsa AAAA'']"
    by (simp add: demo_key_simps js_def)
  show ?thesis
    using deleteKey_not_found [OF demo_loaded_hit a, of True]
      editKey_not_found [OF demo_loaded_hit a, of demo_options]
    by (simp add: demo_loaded_simps)
qed

lemma new_Date_simp:
  "new_Date_toISOString w s = (date_now (os w) (tick s), s\<lparr>tick := tick s + 1\<rparr>)"
  by (simp add: new_Date_toISOString_def)

lemma editKey_found:
  assumes "loadKeys w s = (Inr (KeyArray keys), s1)"
    and "findIndex (\<lambda>k. id' k = Str kid) keys = Some i"
    and "editKey w s kid options = (r, s')"
  shows "keysCache s' = Some (KeyArray (keys[i := Object_assign (keys ! i)
                            (collect_updates w options (keys ! i)) (date_now (os w) (tick s1))]))"
  using assms
  by (auto simp: editKey_def editKey_try_def new_Date_simp Let_def
      split: prod.splits sum.splits dest!: saveKeys_cases)

text \<open>
  Claim C6. When \<^verbatim>\<open>editKey\<close> finds the record, the cached collection afterwards (whether or
  not the save succeeded) differs from the loaded one in that record only. Its \<^verbatim>\<open>id\<close>,
  \<^verbatim>\<open>created\<close> and \<^verbatim>\<open>key_type\<close> are what they were, also when the key material changes;
  \<^verbatim>\<open>last_modified\<close> is the current time; \<^verbatim>\<open>name\<close>, \<^verbatim>\<open>tag\<close> and \<^verbatim>\<open>key\<close> are overwritten
  exactly when the update names them. With options on the command line: the name when
  \<^verbatim>\<open>--name\<close> is a non-empty string, the tag when \<^verbatim>\<open>--tag\<close> is given (an empty tag becomes
  \<^verbatim>\<open>null\<close>), the key material when \<^verbatim>\<open>--content\<close> is a non-empty string.
\<close>

theorem editKey_frame:
  assumes "loadKeys w s = (Inr (KeyArray keys), s1)"
    and "findIndex (\<lambda>k. id' k = Str kid) keys = Some i"
    and "editKey w s kid options = (r, s')"
  shows "\<exists>k'. keysCache s' = Some (KeyArray (keys[i := k']))
           \<and> id' k' = id' (keys ! i) \<and> created k' = created (keys ! i)
           \<and> key_type k' = key_type (keys ! i)
           \<and> last_modified k' = Str (date_now (os w) (tick s1))
           \<and> name k' = (case upd_name (collect_updates w options (keys ! i)) of
                          Some v \<Rightarrow> v | None \<Rightarrow> name (keys ! i))
           \<and> tag k' = (case upd_tag (collect_updates w options (keys ! i)) of
                          Some v \<Rightarrow> v | None \<Rightarrow> tag (keys ! i))
           \<and> key k' = (case upd_key (collect_updates w options (keys ! i)) of
                          Some v \<Rightarrow> v | None \<Rightarrow> key (keys ! i))
           \<and> (truthy (opt_name options) \<or> truthy (opt_tag options) \<or> truthy (opt_content options)
                \<longrightarrow> name k' = (if truthy (opt_name options) then opt_name options else name (keys ! i))
                  \<and> tag k' = (if opt_tag options = Undefined then tag (keys ! i)
                              else js_or (opt_tag options) Null)
                  \<and> key k' = (if truthy (opt_content options) then opt_content options
                              else key (keys ! i)))"
proof -
  define k' where "k' = Object_assign (keys ! i) (collect_updates w options (keys ! i))
                          (date_now (os w) (tick s1))"
  have c: "keysCache s' = Some (KeyArray (keys[i := k']))"
    using editKey_found [OF assms] by (simp add: k'_def)
  have f: "id' k' = id' (keys ! i)" "created k' = created (keys ! i)"
    "key_type k' = key_type (keys ! i)" "last_modified k' = Str (date_now (os w) (tick s1))"
    "name k' = (case upd_name (collect_updates w options (keys ! i)) of
                  Some v \<Rightarrow> v | None \<Rightarrow> name (keys ! i))"
    "tag k' = (case upd_tag (collect_updates w options (keys ! i)) of
                  Some v \<Rightarrow> v | None \<Rightarrow> tag (keys ! i))"
    "key k' = (case upd_key (collect_updates w options (keys ! i)) of
                  Some v \<Rightarrow> v | None \<Rightarrow> key (keys ! i))"
    by (simp_all add: k'_def Object_assign_def)
  have g: "truthy (opt_name options) \<or> truthy (opt_tag options) \<or> truthy (opt_content options)
        \<longrightarrow> name k' = (if truthy (opt_name options) then opt_name options else name (keys ! i))
          \<and> tag k' = (if opt_tag options = Undefined then tag (keys ! i)
                      else js_or (opt_tag options) Null)
          \<and> key k' = (if truthy (opt_content options) then opt_content options
                      else key (keys ! i))"
    by (auto simp: f(5,6,7) collect_updates_def option_updates_def)
  show ?thesis using c f g by blast
qed

text \<open>The theorem on a store of one RSA key, edited to a new tag and to Ed25519 key
  material: the stored type stays \<^verbatim>\<open>RSA\<close>.\<close>

theorem editKey_frame_witness:
  "keysCache (snd (editKey demo_world demo_loaded (js ''id-1'') demo_options))
     = Some (KeyArray [\<lparr>id' = Str (js ''id-1''), name = Str (js ''github''), tag = Str (js ''work''),
                        key = Str (js ''ssh-ed25519 CCCC''), key_type = Str (js ''RSA''),
                        created = Str (js ''2020''),
                        last_modified = Str (js ''2025-01-01T00:00:00'')\<rparr>])
   \<and> detectKeyType (js ''ssh-ed25519 CCCC'') = js ''Ed25519''"
proof -
  have i: "findIndex (\<lambda>k. id' k = Str (js ''id-1'')) [demo_key ''id-1'' ''github'' ''ssh-rsa AAAA''] = Some 0"
    by (simp add: demo_key_simps)
  obtain r s' where e: "editKey demo_world demo_loaded (js ''id-1'') demo_options = (r, s')"
    by (cases "editKey demo_world demo_loaded (js ''id-1'') demo_options") auto
  obtain k' where k: "keysCache s' = Some (KeyArray ([demo_key ''id-1'' ''github'' ''ssh-rsa AAAA''][0 := k']))"
    "id' k' = Str (js ''id-1'')" "created k' = Str (js ''2020'')" "key_type k' = Str (js ''RSA'')"
    "last_modified k' = Str (js ''2025-01-01T00:00:00'')"
    "name k' = Str (js ''github'')" "tag k' = Str (js ''work'')" "key k' = Str (js ''ssh-ed25519 CCCC'')"
    using editKey_frame [OF demo_loaded_hit i e]
    by (auto simp: demo_options_def demo_key_simps demo_simps demo_loaded_simps js_or_def js_def
        hex_digit_def)
  have "k' = \<lparr>id' = Str (js ''id-1''), name = Str (js ''github''), tag = Str (js ''work''),
                        key = Str (js ''ssh-ed25519 CCCC''), key_type = Str (js ''RSA''),
                        created = Str (js ''2020''),
                        last_modified = Str (js ''2025-01-01T00:00:00'')\<rparr>"
    using k(2-) by (cases k') simp
  then show ?thesis using k(1) e by (simp add: detectKeyType_def js_def)
qed


section \<open>Import from a file: the merge\<close>

lemma isDuplicate_iff:
  "isDuplicate existing c \<longleftrightarrow> (\<exists>e \<in> set existing. key e = key c \<or> name e = name c)"
  by (simp add: isDuplicate_def list_ex_iff)

lemma isDuplicate_cong:
  assumes "map key a = map key b" "map name a = map name b"
  shows "isDuplicate a c = isDuplicate b c"
proof -
  have "length a = length b" using assms(1) by (metis length_map)
  then show ?thesis
    using assms by (induction a b rule: list_induct2) (simp_all add: isDuplicate_def)
qed

lemma accepted_cong:
  "map key a = map key b \<Longrightarrow> map name a = map name b \<Longrightarrow> accepted a cs = accepted b cs"
proof (induction cs arbitrary: a b)
  case Nil
  show ?case by simp
next
  case (Cons c cs)
  have d: "isDuplicate a c = isDuplicate b c" using Cons.prems by (rule isDuplicate_cong)
  have "accepted (a @ [c]) cs = accepted (b @ [c]) cs"
    using Cons.prems by (intro Cons.IH) simp_all
  then show ?case using d Cons.IH [OF Cons.prems] by simp
qed

lemma loop_step_dup:
  assumes "keysCache s = Some (KeyArray ks)" "isDuplicate ks c"
  shows "importFromFile_loop w (c # rest) ic dc s = importFromFile_loop w rest ic (dc + 1) s"
  using assms by simp

lemma loop_step_error:
  assumes "keysCache s = Some (KeyArray ks)" "\<not> isDuplicate ks c" "candidate_type c = Inl e"
  shows "importFromFile_loop w (c # rest) ic dc s = (Inl e, s\<lparr>tick := Suc (tick s)\<rparr>)"
  using assms
  by (auto simp: candidate_type_def generateId_def split: if_splits jsval.splits)

lemma loop_step_new:
  assumes "keysCache s = Some (KeyArray ks)" "\<not> isDuplicate ks c" "candidate_type c = Inr kt"
  shows "importFromFile_loop w (c # rest) ic dc s =
           importFromFile_loop w rest (ic + 1) dc
             (s\<lparr>tick := (if truthy (created c) then Suc (Suc (tick s)) else Suc (Suc (Suc (tick s)))),
                keysCache := Some (KeyArray (ks @ [new_record w (tick s) c kt]))\<rparr>)"
  using assms
  by (auto simp: candidate_type_def generateId_def new_Date_simp new_record_def Let_def
      split: if_splits jsval.splits)


lemma candidate_type_Inr:
  "candidate_type c = Inr kt \<Longrightarrow>
     kt = (if truthy (key_type c) then key_type c else Str (detectKeyType (str_of (key c))))"
  by (auto simp: candidate_type_def str_of_def split: if_splits jsval.splits)

lemma imported_as_new_record:
  "candidate_type c = Inr kt \<Longrightarrow> imported_as w (new_record w t c kt) c"
  using candidate_type_Inr [of c kt]
  by (auto simp: imported_as_def new_record_def)

lemma importFromFile_loop_result:
  "keysCache s = Some (KeyArray ks) \<Longrightarrow>
   importFromFile_loop w cands ic dc s = (Inr (ic', dc'), s') \<Longrightarrow>
   \<exists>news ts. keysCache s' = Some (KeyArray (ks @ news))
      \<and> list_all2 (imported_as w) news (accepted ks cands)
      \<and> map id' news = map (\<lambda>t. Str (randomUUID (crypto w) t)) ts
      \<and> sorted_wrt (<) ts \<and> (\<forall>t \<in> set ts. tick s \<le> t \<and> t < tick s')
      \<and> ic' = ic + length news \<and> dc' + length news = dc + length cands
      \<and> unchanged_outside_cache s s'"
proof (induction cands arbitrary: s ks ic dc)
  case Nil
  then have "s' = s" "ic' = ic" "dc' = dc" by simp_all
  then show ?case
    using Nil.prems(1) by (intro exI [of _ "[]"]) (simp add: unchanged_outside_cache_def)
next
  case (Cons c rest)
  show ?case
  proof (cases "isDuplicate ks c")
    case True
    have run: "importFromFile_loop w rest ic (dc + 1) s = (Inr (ic', dc'), s')"
      using Cons.prems(2) loop_step_dup [OF Cons.prems(1) True] by simp
    obtain news ts where r: "keysCache s' = Some (KeyArray (ks @ news))"
      "list_all2 (imported_as w) news (accepted ks rest)"
      "map id' news = map (\<lambda>t. Str (randomUUID (crypto w) t)) ts"
      "sorted_wrt (<) ts" "\<forall>t \<in> set ts. tick s \<le> t \<and> t < tick s'"
      "ic' = ic + length news" "dc' + length news = (dc + 1) + length rest"
      "unchanged_outside_cache s s'"
      using Cons.IH [OF Cons.prems(1) run] by blast
    show ?thesis
      using r True by (intro exI [of _ news] exI [of _ ts]) simp
  next
    case False
    show ?thesis
    proof (cases "candidate_type c")
      case (Inl e)
      then show ?thesis
        using Cons.prems(2) loop_step_error [OF Cons.prems(1) False Inl] by simp
    next
      case (Inr kt)
      define n where "n = new_record w (tick s) c kt"
      define T where "T = (if truthy (created c) then Suc (Suc (tick s)) else Suc (Suc (Suc (tick s))))"
      define s3 where "s3 = s\<lparr>tick := T, keysCache := Some (KeyArray (ks @ [n]))\<rparr>"
      have T: "tick s < T" by (simp add: T_def)
      have c3: "keysCache s3 = Some (KeyArray (ks @ [n]))" by (simp add: s3_def)
      have run: "importFromFile_loop w rest (ic + 1) dc s3 = (Inr (ic', dc'), s')"
        using Cons.prems(2) loop_step_new [OF Cons.prems(1) False Inr]
        by (simp add: s3_def n_def T_def)
      obtain news ts where r: "keysCache s' = Some (KeyArray ((ks @ [n]) @ news))"
        "list_all2 (imported_as w) news (accepted (ks @ [n]) rest)"
        "map id' news = map (\<lambda>t. Str (randomUUID (crypto w) t)) ts"
        "sorted_wrt (<) ts" "\<forall>t \<in> set ts. tick s3 \<le> t \<and> t < tick s'"
        "ic' = (ic + 1) + length news" "dc' + length news = dc + length rest"
        "unchanged_outside_cache s3 s'"
        using Cons.IH [OF c3 run] by blast
      have t3: "tick s3 = T" by (simp add: s3_def)
      have le: "T \<le> tick s'" using r(8) t3 by (simp add: unchanged_outside_cache_def)
      have acc: "accepted (ks @ [n]) rest = accepted (ks @ [c]) rest"
        by (rule accepted_cong) (simp_all add: n_def new_record_def)
      have a: "list_all2 (imported_as w) (n # news) (accepted ks (c # rest))"
        using r(2) acc False imported_as_new_record [OF Inr] by (simp add: n_def)
      have b: "map id' (n # news) = map (\<lambda>t. Str (randomUUID (crypto w) t)) (tick s # ts)"
        using r(3) by (simp add: n_def new_record_def)
      have d: "sorted_wrt (<) (tick s # ts)"
        using r(4,5) T t3 by auto
      have e: "\<forall>t \<in> set (tick s # ts). tick s \<le> t \<and> t < tick s'"
        using r(5) T t3 le by auto
      have f: "unchanged_outside_cache s s'"
        using r(8) T le by (simp add: unchanged_outside_cache_def s3_def)
      show ?thesis
        using r(1,6,7) a b d e f
        by (intro exI [of _ "n # news"] exI [of _ "tick s # ts"]) simp
    qed
  qed
qed


lemma read_import_content_frame:
  "read_import_content w s p pw = (r, s1) \<Longrightarrow> s1 = s\<lparr>fs_log := fs_log s @ [ReadFile p]\<rparr>"
  by (auto simp: read_import_content_def split: if_splits prod.splits sum.splits
      dest!: readFile_frame)

lemma writeFile_keeps:
  "writeFile w s p d = (r, s1) \<Longrightarrow>
     keysCache s1 = keysCache s \<and> console s1 = console s \<and> tick s1 = tick s
     \<and> writes s1 = writes s + 1"
  using writeFile_frame [of w s p d r s1] by simp

lemma saveKeys_ok_frame:
  assumes "saveKeys w s keys = (Inr u, s')"
  shows "writes s' = writes s + 1" "console s' = console s" "keysCache s' = Some keys"
  using assms
  by (auto simp: saveKeys_def split: prod.splits sum.splits
      dest!: getKeysFilePath_keeps encryptData_frame writeFile_keeps)


lemma importFromFile_run:
  assumes "read_import_content w s filePath password = (Inr content, s1)"
    and "JSON_parse (json w) content = Inr data"
    and "import_candidates data = Inr (Some candidates)"
    and "loadKeys w s1 = (Inr (KeyArray snapshot), s2)"
    and "importFromFile_try w s filePath password = (Inr u, s')"
  shows "\<exists>news ts. keysCache s' = Some (KeyArray (snapshot @ news))
     \<and> list_all2 (imported_as w) news (accepted snapshot candidates)
     \<and> map id' news = map (\<lambda>t. Str (randomUUID (crypto w) t)) ts
     \<and> sorted_wrt (<) ts \<and> (\<forall>t \<in> set ts. tick s \<le> t)
     \<and> console s' = console s2 @ ImportedKeys (length news)
           # (if length news < length candidates
              then [SkippedDuplicates (length candidates - length news)] else [])
     \<and> writes s' = writes s + 1
     \<and> importFromFile w s filePath password = (Inr (), s')"
proof -
  have c2: "keysCache s2 = Some (KeyArray snapshot)" using loadKeys_Inr [OF assms(4)] .
  obtain r3 s3 where lp: "importFromFile_loop w candidates 0 0 s2 = (r3, s3)"
    by (cases "importFromFile_loop w candidates 0 0 s2") auto
  have tr: "importFromFile_try w s filePath password =
      (case (r3, s3) of
         (Inl e, s3) \<Rightarrow> (Inl e, s3)
       | (Inr (importedCount, duplicateCount), s3) \<Rightarrow>
           (case saveKeys w s3 (current_doc s3 (KeyArray snapshot)) of
              (Inl e, s4) \<Rightarrow> (Inl e, s4)
            | (Inr u, s4) \<Rightarrow>
                (Inr (),
                 (if 0 < duplicateCount then print (SkippedDuplicates duplicateCount) else (\<lambda>x. x))
                   (print (ImportedKeys importedCount) s4))))"
    using assms(1-4) lp by (simp add: importFromFile_try_def)
  obtain ic dc where r3: "r3 = Inr (ic, dc)"
    using tr assms(5) by (cases r3) auto
  obtain news ts where r: "keysCache s3 = Some (KeyArray (snapshot @ news))"
    "list_all2 (imported_as w) news (accepted snapshot candidates)"
    "map id' news = map (\<lambda>t. Str (randomUUID (crypto w) t)) ts"
    "sorted_wrt (<) ts" "\<forall>t \<in> set ts. tick s2 \<le> t \<and> t < tick s3"
    "ic = 0 + length news" "dc + length news = 0 + length candidates"
    "unchanged_outside_cache s2 s3"
    using importFromFile_loop_result [OF c2 lp [unfolded r3]] by blast
  have cur: "current_doc s3 (KeyArray snapshot) = KeyArray (snapshot @ news)"
    using r(1) by (simp add: current_doc_def)
  obtain r4 s4 where sv: "saveKeys w s3 (KeyArray (snapshot @ news)) = (r4, s4)"
    by (cases "saveKeys w s3 (KeyArray (snapshot @ news))") auto
  have r4: "r4 = Inr ()" using tr assms(5) r3 cur sv by (cases r4) auto
  have s': "s' = (if 0 < dc then print (SkippedDuplicates dc) else (\<lambda>x. x))
                   (print (ImportedKeys ic) s4)"
    using tr assms(5) r3 cur sv r4 by simp
  note f4 = saveKeys_ok_frame [OF sv [unfolded r4]]
  have t: "tick s \<le> tick s2"
    using loadKeys_frame(3) [OF assms(4)] read_import_content_frame [OF assms(1)] by simp
  have w: "writes s3 = writes s"
    using r(8) loadKeys_frame(2) [OF assms(4)] read_import_content_frame [OF assms(1)]
    by (simp add: unchanged_outside_cache_def writes_def)
  have co: "console s4 = console s2"
    using f4(2) r(8) by (simp add: unchanged_outside_cache_def)
  have dc: "dc = length candidates - length news" "0 < dc \<longleftrightarrow> length news < length candidates"
    using r(7) by auto
  have "keysCache s' = Some (KeyArray (snapshot @ news))" using s' f4(3) by simp
  moreover have "console s' = console s2 @ ImportedKeys (length news)
           # (if length news < length candidates
              then [SkippedDuplicates (length candidates - length news)] else [])"
    using s' co r(6) dc by simp
  moreover have "writes s' = writes s + 1" using s' f4(1) w by simp
  moreover have "\<forall>t \<in> set ts. tick s \<le> t" using r(5) t by auto
  moreover have "importFromFile w s filePath password = (Inr (), s')"
    using assms(5) by (simp add: importFromFile_def)
  ultimately show ?thesis using r(2,3,4) by blast
qed

text \<open>
  Claim C3, amended. For every batch that \<^verbatim>\<open>importFromFile\<close> processes to the end (the file
  read and parsed into candidates, the collection loaded once as an array, no error): a
  candidate is a duplicate exactly when some record of the collection has equal key material
  or equal name, where the collection is the one in memory when the candidate is reached:
  the loaded one and the candidates of this batch accepted before it (\<open>accepted\<close>). Every
  other candidate is appended, in order, with a newly generated id (the ids come from
  successive calls of \<^verbatim>\<open>randomUUID\<close> during the batch), the current time as
  \<^verbatim>\<open>last_modified\<close>, and as \<^verbatim>\<open>created\<close> its own \<^verbatim>\<open>created\<close> when it has one, else the current
  time (\<open>imported_as\<close>). The counts printed are those of the appended and of the skipped
  candidates, and the batch is committed by exactly one call of \<^verbatim>\<open>writeFile\<close>.
\<close>

theorem importFromFile_batch:
  assumes "read_import_content w s filePath password = (Inr content, s1)"
    and "JSON_parse (json w) content = Inr data"
    and "import_candidates data = Inr (Some candidates)"
    and "loadKeys w s1 = (Inr (KeyArray snapshot), s2)"
    and "importFromFile_try w s filePath password = (Inr u, s')"
  shows "(\<forall>existing c. isDuplicate existing c
            \<longleftrightarrow> (\<exists>e \<in> set existing. key e = key c \<or> name e = name c))
     \<and> (\<exists>news ts. keysCache s' = Some (KeyArray (snapshot @ news))
          \<and> list_all2 (imported_as w) news (accepted snapshot candidates)
          \<and> map id' news = map (\<lambda>t. Str (randomUUID (crypto w) t)) ts
          \<and> sorted_wrt (<) ts \<and> (\<forall>t \<in> set ts. tick s \<le> t)
          \<and> console s' = console s2 @ ImportedKeys (length news)
                # (if length news < length candidates
                   then [SkippedDuplicates (length candidates - length news)] else [])
          \<and> writes s' = writes s + 1
          \<and> importFromFile w s filePath password = (Inr (), s'))"
  using importFromFile_run [OF assms] isDuplicate_iff by blast


lemma demo_import_simps:
  "config_keysFilePath demo_import = Null" "passwordKey demo_import = None"
  "machineKey demo_import = machineKey demo_manager" "keysCache demo_import = None"
  "files demo_import = [js ''/in.json'' \<mapsto> js ''batch'']"
  "dirs demo_import = (\<lambda>p. False)" "console demo_import = []" "fs_log demo_import = []"
  "tick demo_import = 0"
  by (simp_all add: demo_import_def demo_manager_simps)

lemma demo_import_read:
  "read_import_content demo_world demo_import (js ''/in.json'') Undefined
     = (Inr (js ''batch''), demo_import\<lparr>fs_log := [ReadFile (js ''/in.json'')]\<rparr>)"
  by (simp add: read_import_content_def readFile_def demo_import_simps demo_simps Let_def)

lemma demo_import_parse:
  "JSON_parse (json demo_world) (js ''batch'')
     = Inr (ExportDoc [demo_key ''x'' ''github'' ''ssh-rsa AAAA'',
                       demo_key ''y'' ''github'' ''ssh-rsa BBBB''])"
  by (simp add: demo_world_simps demo_json_def)

lemma demo_import_candidates:
  "import_candidates (ExportDoc [demo_key ''x'' ''github'' ''ssh-rsa AAAA'',
                                 demo_key ''y'' ''github'' ''ssh-rsa BBBB''])
     = Inr (Some [demo_key ''x'' ''github'' ''ssh-rsa AAAA'',
                  demo_key ''y'' ''github'' ''ssh-rsa BBBB''])"
  by (simp add: import_candidates_def)

lemma demo_import_load:
  "loadKeys demo_world (demo_import\<lparr>fs_log := [ReadFile (js ''/in.json'')]\<rparr>)
     = (Inr (KeyArray []),
        demo_import\<lparr>fs_log := [ReadFile (js ''/in.json''), ExistsSync (js ''/work/data''),
                                 MkdirpSync (js ''/work/data''),
                                 ExistsSync (js ''/work/data/ssh_keys.enc'')],
                     dirs := (\<lambda>p. False)(js ''/work/data'' := True),
                     keysCache := Some (KeyArray [])\<rparr>)"
  by (simp add: loadKeys_def load_from_file_def getKeysFilePath_def default_keys_path_def
      existsSync_def mkdirpSync_def demo_import_simps demo_simps js_data_path Let_def)
     (simp add: js_def)

lemma js_Cons [simp]: "js (c # cs) \<noteq> []" "[] \<noteq> js (c # cs)"
  by (simp_all add: js_def)

lemma demo_import_loop:
  "importFromFile_loop demo_world
      [demo_key ''x'' ''github'' ''ssh-rsa AAAA'', demo_key ''y'' ''github'' ''ssh-rsa BBBB''] 0 0
      (demo_import\<lparr>fs_log := [ReadFile (js ''/in.json''), ExistsSync (js ''/work/data''),
                                 MkdirpSync (js ''/work/data''),
                                 ExistsSync (js ''/work/data/ssh_keys.enc'')],
                     dirs := (\<lambda>p. False)(js ''/work/data'' := True),
                     keysCache := Some (KeyArray [])\<rparr>)
   = (Inr (1, 1),
      demo_import\<lparr>fs_log := [ReadFile (js ''/in.json''), ExistsSync (js ''/work/data''),
                                 MkdirpSync (js ''/work/data''),
                                 ExistsSync (js ''/work/data/ssh_keys.enc'')],
                     dirs := (\<lambda>p. False)(js ''/work/data'' := True),
                     tick := 2,
                     keysCache := Some (KeyArray
                        [new_record demo_world 0 (demo_key ''x'' ''github'' ''ssh-rsa AAAA'')
                           (Str (js ''RSA''))])\<rparr>)"
proof -
  define kx where "kx = demo_key ''x'' ''github'' ''ssh-rsa AAAA''"
  define ky where "ky = demo_key ''y'' ''github'' ''ssh-rsa BBBB''"
  define n where "n = new_record demo_world 0 kx (Str (js ''RSA''))"
  define S2 where "S2 = demo_import\<lparr>fs_log := [ReadFile (js ''/in.json''), ExistsSync (js ''/work/data''),
                                 MkdirpSync (js ''/work/data''),
                                 ExistsSync (js ''/work/data/ssh_keys.enc'')],
                     dirs := (\<lambda>p. False)(js ''/work/data'' := True),
                     keysCache := Some (KeyArray [])\<rparr>"
  define S3 where "S3 = S2\<lparr>tick := Suc (Suc 0), keysCache := Some (KeyArray [n])\<rparr>"
  have c2: "keysCache S2 = Some (KeyArray [])" and t2: "tick S2 = 0"
    by (simp_all add: S2_def demo_import_simps)
  have c3: "keysCache S3 = Some (KeyArray [n])" by (simp add: S3_def)
  have ct: "candidate_type kx = Inr (Str (js ''RSA''))"
    by (simp add: candidate_type_def kx_def demo_key_simps)
  have nd: "\<not> isDuplicate [] kx" by (simp add: isDuplicate_def)
  have d: "isDuplicate [n] ky"
    by (simp add: isDuplicate_def n_def new_record_def kx_def ky_def demo_key_simps)
  have cr: "truthy (created kx)" by (simp add: kx_def demo_key_simps)
  have "importFromFile_loop demo_world [kx, ky] 0 0 S2
          = importFromFile_loop demo_world [ky] (0 + 1) 0 S3"
    using loop_step_new [OF c2 nd ct, of demo_world "[ky]" 0 0] cr t2
    by (simp add: S3_def n_def)
  also have "\<dots> = importFromFile_loop demo_world [] (0 + 1) (0 + 1) S3"
    using loop_step_dup [OF c3 d, of demo_world "[]" "0 + 1" 0] by simp
  also have "\<dots> = (Inr (1, 1), S3)" by simp
  finally show ?thesis
    unfolding S3_def S2_def n_def kx_def ky_def by (simp add: numeral_2_eq_2)
qed


lemma demo_import_try:
  "\<exists>s'. importFromFile_try demo_world demo_import (js ''/in.json'') Undefined = (Inr (), s')"
proof -
  define n where "n = new_record demo_world 0 (demo_key ''x'' ''github'' ''ssh-rsa AAAA'') (Str (js ''RSA''))"
  define S3 where "S3 = demo_import\<lparr>fs_log := [ReadFile (js ''/in.json''), ExistsSync (js ''/work/data''),
                                 MkdirpSync (js ''/work/data''),
                                 ExistsSync (js ''/work/data/ssh_keys.enc'')],
                     dirs := (\<lambda>p. False)(js ''/work/data'' := True),
                     tick := 2,
                     keysCache := Some (KeyArray [n])\<rparr>"
  have k: "length (getEncryptionKey S3) = 32"
    using demo_machineKey by (simp add: S3_def getEncryptionKey_def demo_import_simps)
  have nd: "\<not> dirs S3 (js ''/work/data/ssh_keys.enc'')"
    by (simp add: S3_def) (simp add: js_def)
  obtain s4 where sv: "saveKeys demo_world S3 (KeyArray [n]) = (Inr (), s4)"
    using saveKeys_completes [of S3 demo_world "KeyArray [n]"] k nd demo_paths_differ
    by (auto simp: S3_def demo_import_simps demo_simps js_data_path)
  have cur: "current_doc S3 (KeyArray []) = KeyArray [n]" by (simp add: current_doc_def S3_def)
  show ?thesis
    using demo_import_read demo_import_parse demo_import_candidates demo_import_load
      demo_import_loop sv cur
    by (simp add: importFromFile_try_def S3_def [symmetric] n_def [symmetric])
qed

text \<open>The theorem at an export of two keys of one name, imported into an empty store.\<close>

theorem importFromFile_batch_witness:
  "fst (importFromFile demo_world demo_import (js ''/in.json'') Undefined) = Inr ()
   \<and> console (snd (importFromFile demo_world demo_import (js ''/in.json'') Undefined))
       = [ImportedKeys 1, SkippedDuplicates 1]
   \<and> writes (snd (importFromFile demo_world demo_import (js ''/in.json'') Undefined)) = 1
   \<and> (\<exists>n. keysCache (snd (importFromFile demo_world demo_import (js ''/in.json'') Undefined))
              = Some (KeyArray [n])
          \<and> imported_as demo_world n (demo_key ''x'' ''github'' ''ssh-rsa AAAA'')
          \<and> (\<exists>t. id' n = Str (randomUUID (crypto demo_world) t)))"
proof -
  define kx where "kx = demo_key ''x'' ''github'' ''ssh-rsa AAAA''"
  define ky where "ky = demo_key ''y'' ''github'' ''ssh-rsa BBBB''"
  obtain s' where tr: "importFromFile_try demo_world demo_import (js ''/in.json'') Undefined = (Inr (), s')"
    using demo_import_try by blast
  have acc: "accepted [] [kx, ky] = [kx]"
    by (simp add: isDuplicate_def kx_def ky_def demo_key_simps)
  obtain news ts where r: "keysCache s' = Some (KeyArray ([] @ news))"
    "list_all2 (imported_as demo_world) news (accepted [] [kx, ky])"
    "map id' news = map (\<lambda>t. Str (randomUUID (crypto demo_world) t)) ts"
    "sorted_wrt (<) ts" "\<forall>t \<in> set ts. tick demo_import \<le> t"
    "console s' = [] @ ImportedKeys (length news)
           # (if length news < length [kx, ky]
              then [SkippedDuplicates (length [kx, ky] - length news)] else [])"
    "writes s' = writes demo_import + 1"
    "importFromFile demo_world demo_import (js ''/in.json'') Undefined = (Inr (), s')"
    using importFromFile_batch [OF demo_import_read demo_import_parse demo_import_candidates
        demo_import_load tr]
    unfolding kx_def ky_def by (auto simp: demo_import_simps)
  obtain n where n: "news = [n]" "imported_as demo_world n kx"
    using r(2) unfolding acc by (auto simp: list_all2_Cons2)
  have w: "writes demo_import = 0" by (simp add: writes_def demo_import_simps)
  obtain t where t: "id' n = Str (randomUUID (crypto demo_world) t)"
    using r(3) n(1) by (cases ts) auto
  have "console s' = [ImportedKeys 1, SkippedDuplicates 1]" using r(6) n(1) by simp
  moreover have "writes s' = 1" using r(7) w by simp
  moreover have "keysCache s' = Some (KeyArray [n])" using r(1) n(1) by simp
  ultimately show ?thesis
    using r(8) n(2) t unfolding kx_def by auto
qed

text \<open>
  Claim C3 as stated fails on that batch. Against the collection loaded before the batch
  (empty) neither candidate is a duplicate, yet the second is skipped, as a duplicate of the
  first. And the record appended keeps the candidate's \<^verbatim>\<open>created\<close>, \<^verbatim>\<open>2020\<close>, which is no
  time of the import.
\<close>

theorem import_snapshot_counterexample:
  "accepted_against_snapshot []
      [demo_key ''x'' ''github'' ''ssh-rsa AAAA'', demo_key ''y'' ''github'' ''ssh-rsa BBBB'']
     = [demo_key ''x'' ''github'' ''ssh-rsa AAAA'', demo_key ''y'' ''github'' ''ssh-rsa BBBB'']
   \<and> console (snd (importFromFile demo_world demo_import (js ''/in.json'') Undefined))
       = [ImportedKeys 1, SkippedDuplicates 1]
   \<and> (\<exists>n. keysCache (snd (importFromFile demo_world demo_import (js ''/in.json'') Undefined))
              = Some (KeyArray [n])
          \<and> created n = Str (js ''2020''))
   \<and> (\<forall>t. date_now (os demo_world) t \<noteq> js ''2020'')"
proof -
  define kx where "kx = demo_key ''x'' ''github'' ''ssh-rsa AAAA''"
  define ky where "ky = demo_key ''y'' ''github'' ''ssh-rsa BBBB''"
  obtain s' where tr: "importFromFile_try demo_world demo_import (js ''/in.json'') Undefined = (Inr (), s')"
    using demo_import_try by blast
  have acc: "accepted [] [kx, ky] = [kx]"
    by (simp add: isDuplicate_def kx_def ky_def demo_key_simps)
  obtain news where r: "keysCache s' = Some (KeyArray ([] @ news))"
    "list_all2 (imported_as demo_world) news (accepted [] [kx, ky])"
    "console s' = [] @ ImportedKeys (length news)
           # (if length news < length [kx, ky]
              then [SkippedDuplicates (length [kx, ky] - length news)] else [])"
    "importFromFile demo_world demo_import (js ''/in.json'') Undefined = (Inr (), s')"
    using importFromFile_run [OF demo_import_read demo_import_parse demo_import_candidates
        demo_import_load tr]
    unfolding kx_def ky_def by (auto simp: demo_import_simps)
  obtain n where n: "news = [n]" "imported_as demo_world n kx"
    using r(2) unfolding acc by (auto simp: list_all2_Cons2)
  have cr: "created n = Str (js ''2020'')"
    using n(2) by (simp add: imported_as_def kx_def demo_key_simps)
  have a: "accepted_against_snapshot [] [kx, ky] = [kx, ky]"
    by (simp add: accepted_against_snapshot_def isDuplicate_def)
  have clock: "\<forall>t. date_now (os demo_world) t \<noteq> js ''2020''"
    by (simp add: demo_simps js_def)
  have "console s' = [ImportedKeys 1, SkippedDuplicates 1]" using r(3) n(1) by simp
  moreover have "keysCache s' = Some (KeyArray [n])" using r(1) n(1) by simp
  ultimately show ?thesis
    using r(4) cr a clock unfolding kx_def ky_def by auto
qed

section \<open>Import from a directory and from a scan: no comparison\<close>

lemma readFile_readable:
  "readable w (files s) p \<Longrightarrow>
     readFile w s p = (Inr (content_of (files s) p), s\<lparr>fs_log := fs_log s @ [ReadFile p]\<rparr>)"
  by (auto simp: readable_def content_of_def readFile_def Let_def)

lemma readFile_unreadable:
  "\<not> readable w (files s) p \<Longrightarrow>
     readFile w s p = (Inl FsError, s\<lparr>fs_log := fs_log s @ [ReadFile p]\<rparr>)"
  by (auto simp: readable_def readFile_def Let_def split: option.splits)

lemma generateId_simp:
  "generateId w s = (randomUUID (crypto w) (tick s), s\<lparr>tick := tick s + 1\<rparr>)"
  by (simp add: generateId_def)

lemma importFromDirectory_loop_result:
  "keysCache s = Some (KeyArray ks) \<Longrightarrow>
   importFromDirectory_loop w dirPath pubFiles n s = (n', s') \<Longrightarrow>
   \<exists>news. keysCache s' = Some (KeyArray (ks @ news))
     \<and> map name news
         = map Str (filter (\<lambda>f. readable w (files s) (path_join (os w) dirPath f)) pubFiles)
     \<and> map key news
         = map (\<lambda>f. Str (trim (content_of (files s) (path_join (os w) dirPath f))))
             (filter (\<lambda>f. readable w (files s) (path_join (os w) dirPath f)) pubFiles)
     \<and> map key_type news
         = map (\<lambda>f. Str (detectKeyType (content_of (files s) (path_join (os w) dirPath f))))
             (filter (\<lambda>f. readable w (files s) (path_join (os w) dirPath f)) pubFiles)
     \<and> n' = n + length news \<and> files s' = files s"
proof (induction pubFiles arbitrary: s ks n)
  case Nil
  then show ?case by simp
next
  case (Cons f rest)
  define p where "p = path_join (os w) dirPath f"
  show ?case
  proof (cases "readable w (files s) p")
    case False
    define s1 where "s1 = print (SkippedFile f FsError) (s\<lparr>fs_log := fs_log s @ [ReadFile p]\<rparr>)"
    have run: "importFromDirectory_loop w dirPath rest n s1 = (n', s')"
      using Cons.prems(2) readFile_unreadable [OF False]
      by (simp add: p_def [symmetric] s1_def Let_def)
    have c1: "keysCache s1 = Some (KeyArray ks)" and f1: "files s1 = files s"
      using Cons.prems(1) by (simp_all add: s1_def)
    show ?thesis
      using Cons.IH [OF c1 run] False by (simp add: f1 p_def)
  next
    case True
    define content where "content = content_of (files s) p"
    define newKey where "newKey =
       \<lparr>id' = Str (randomUUID (crypto w) (tick s)), name = Str f, tag = Null,
        key = Str (trim content), key_type = Str (detectKeyType content),
        created = Str (date_now (os w) (Suc (tick s))),
        last_modified = Str (date_now (os w) (Suc (Suc (tick s))))\<rparr>"
    define s4 where "s4 = s\<lparr>fs_log := fs_log s @ [ReadFile p], tick := Suc (Suc (Suc (tick s))),
                            keysCache := Some (KeyArray (ks @ [newKey]))\<rparr>"
    have run: "importFromDirectory_loop w dirPath rest (n + 1) s4 = (n', s')"
      using Cons.prems readFile_readable [OF True]
      by (simp add: p_def [symmetric] content_def [symmetric] generateId_simp new_Date_simp
          Let_def newKey_def s4_def)
    have c4: "keysCache s4 = Some (KeyArray (ks @ [newKey]))" and f4: "files s4 = files s"
      by (simp_all add: s4_def)
    obtain news where r: "keysCache s' = Some (KeyArray ((ks @ [newKey]) @ news))"
      "map name news
         = map Str (filter (\<lambda>f. readable w (files s) (path_join (os w) dirPath f)) rest)"
      "map key news
         = map (\<lambda>f. Str (trim (content_of (files s) (path_join (os w) dirPath f))))
             (filter (\<lambda>f. readable w (files s) (path_join (os w) dirPath f)) rest)"
      "map key_type news
         = map (\<lambda>f. Str (detectKeyType (content_of (files s) (path_join (os w) dirPath f))))
             (filter (\<lambda>f. readable w (files s) (path_join (os w) dirPath f)) rest)"
      "n' = (n + 1) + length news" "files s' = files s"
      using Cons.IH [OF c4 run] unfolding f4 by blast
    show ?thesis
      using r True
      by (intro exI [of _ "newKey # news"]) (simp add: p_def newKey_def content_def)
  qed
qed

lemma importFromScan_loop_result:
  "keysCache s = Some (KeyArray ks) \<Longrightarrow>
   \<exists>news s'. importFromScan_loop w selectedKeys n s = (Inr (n + length selectedKeys), s')
     \<and> keysCache s' = Some (KeyArray (ks @ news))
     \<and> map name news = map (\<lambda>k. Str (scan_name k)) selectedKeys
     \<and> map key news = map (\<lambda>k. Str (scan_content k)) selectedKeys
     \<and> map key_type news = map (\<lambda>k. Str (scan_type k)) selectedKeys"
proof (induction selectedKeys arbitrary: s ks n)
  case Nil
  then show ?case by simp
next
  case (Cons k rest)
  define newKey where "newKey =
       \<lparr>id' = Str (randomUUID (crypto w) (tick s)), name = Str (scan_name k), tag = Null,
        key = Str (scan_content k), key_type = Str (scan_type k),
        created = Str (date_now (os w) (Suc (tick s))),
        last_modified = Str (date_now (os w) (Suc (Suc (tick s))))\<rparr>"
  define s3 where "s3 = s\<lparr>tick := Suc (Suc (Suc (tick s))),
                            keysCache := Some (KeyArray (ks @ [newKey]))\<rparr>"
  have step: "importFromScan_loop w (k # rest) n s = importFromScan_loop w rest (n + 1) s3"
    using Cons.prems
    by (simp add: generateId_simp new_Date_simp Let_def newKey_def s3_def)
  have c3: "keysCache s3 = Some (KeyArray (ks @ [newKey]))" by (simp add: s3_def)
  obtain news s' where r:
    "importFromScan_loop w rest (n + 1) s3 = (Inr ((n + 1) + length rest), s')"
    "keysCache s' = Some (KeyArray ((ks @ [newKey]) @ news))"
    "map name news = map (\<lambda>k. Str (scan_name k)) rest"
    "map key news = map (\<lambda>k. Str (scan_content k)) rest"
    "map key_type news = map (\<lambda>k. Str (scan_type k)) rest"
    using Cons.IH [OF c3] by blast
  show ?case
    using r step
    by (intro exI [of _ "newKey # news"] exI [of _ s']) (simp add: newKey_def)
qed


lemma readdir_frame:
  "readdir w s p = (r, s1) \<Longrightarrow> s1 = s\<lparr>fs_log := fs_log s @ [Readdir p]\<rparr>"
  by (auto simp: readdir_def)

lemma saveKeys_cache_of_current:
  assumes "keysCache s = Some d" "saveKeys w s (current_doc s loaded) = (r, s')"
  shows "keysCache s' = Some d"
proof -
  have "current_doc s loaded = d" using assms(1) by (simp add: current_doc_def)
  then show ?thesis using saveKeys_cases [OF assms(2)] assms(1) by (cases r) simp_all
qed

lemma importFromDirectory_result:
  assumes "readdir w s dirPath = (Inr listing, s1)" "filter is_pub listing \<noteq> []"
    and "loadKeys w s1 = (Inr (KeyArray ks), s2)"
    and "importFromDirectory w s dirPath = (r, s')"
  shows "\<exists>news. keysCache s' = Some (KeyArray (ks @ news))
     \<and> map name news
         = map Str (filter (\<lambda>f. readable w (files s) (path_join (os w) dirPath f))
                      (filter is_pub listing))
     \<and> map key news
         = map (\<lambda>f. Str (trim (content_of (files s) (path_join (os w) dirPath f))))
             (filter (\<lambda>f. readable w (files s) (path_join (os w) dirPath f))
                (filter is_pub listing))
     \<and> (r = Inr () \<longrightarrow> last (console s') = ImportedKeys (length news))"
proof -
  have c2: "keysCache s2 = Some (KeyArray ks)" using loadKeys_Inr [OF assms(3)] .
  have f2: "files s2 = files s"
    using loadKeys_frame(1) [OF assms(3)] readdir_frame [OF assms(1)] by simp
  obtain n3 s3 where lp: "importFromDirectory_loop w dirPath (filter is_pub listing) 0 s2 = (n3, s3)"
    by (cases "importFromDirectory_loop w dirPath (filter is_pub listing) 0 s2") auto
  obtain news where r: "keysCache s3 = Some (KeyArray (ks @ news))"
    "map name news
       = map Str (filter (\<lambda>f. readable w (files s) (path_join (os w) dirPath f))
                    (filter is_pub listing))"
    "map key news
       = map (\<lambda>f. Str (trim (content_of (files s) (path_join (os w) dirPath f))))
           (filter (\<lambda>f. readable w (files s) (path_join (os w) dirPath f))
              (filter is_pub listing))"
    "n3 = 0 + length news"
    using importFromDirectory_loop_result [OF c2 lp] unfolding f2 by blast
  obtain r4 s4 where sv: "saveKeys w s3 (current_doc s3 (KeyArray ks)) = (r4, s4)"
    by (cases "saveKeys w s3 (current_doc s3 (KeyArray ks))") auto
  have c4: "keysCache s4 = Some (KeyArray (ks @ news))"
    using saveKeys_cache_of_current [OF r(1) sv] .
  have res: "(r, s') = (case r4 of Inl e \<Rightarrow> (Inl e, s4)
                        | Inr u \<Rightarrow> (Inr (), print (ImportedKeys n3) s4))"
    using assms lp sv by (cases r4) (auto simp: importFromDirectory_def Let_def)
  show ?thesis
    using res c4 r(2,3,4) by (cases r4) (auto intro!: exI [of _ news])
qed

lemma importFromScan_result:
  assumes "scanCommonLocations w s = (Inr scannedKeys, s1)" "scannedKeys \<noteq> []"
    and "prompt_select_keys (inquirer w) scannedKeys \<noteq> []"
    and "loadKeys w s1 = (Inr (KeyArray ks), s2)"
    and "importFromScan w s = (r, s')"
  shows "\<exists>news. keysCache s' = Some (KeyArray (ks @ news))
     \<and> map name news = map (\<lambda>k. Str (scan_name k)) (prompt_select_keys (inquirer w) scannedKeys)
     \<and> map key news = map (\<lambda>k. Str (scan_content k)) (prompt_select_keys (inquirer w) scannedKeys)
     \<and> (r = Inr () \<longrightarrow> last (console s')
           = ImportedKeys (length (prompt_select_keys (inquirer w) scannedKeys)))"
proof -
  define sel where "sel = prompt_select_keys (inquirer w) scannedKeys"
  have c2: "keysCache s2 = Some (KeyArray ks)" using loadKeys_Inr [OF assms(4)] .
  obtain news s3 where r:
    "importFromScan_loop w sel 0 s2 = (Inr (0 + length sel), s3)"
    "keysCache s3 = Some (KeyArray (ks @ news))"
    "map name news = map (\<lambda>k. Str (scan_name k)) sel"
    "map key news = map (\<lambda>k. Str (scan_content k)) sel"
    using importFromScan_loop_result [OF c2, of w sel 0] by blast
  obtain r4 s4 where sv: "saveKeys w s3 (current_doc s3 (KeyArray ks)) = (r4, s4)"
    by (cases "saveKeys w s3 (current_doc s3 (KeyArray ks))") auto
  have c4: "keysCache s4 = Some (KeyArray (ks @ news))"
    using saveKeys_cache_of_current [OF r(2) sv] .
  have res: "(r, s') = (case r4 of Inl e \<Rightarrow> (Inl e, s4)
                        | Inr u \<Rightarrow> (Inr (), print (ImportedKeys (length sel)) s4))"
    using assms r(1) sv
    by (cases r4) (auto simp: importFromScan_def Let_def sel_def [symmetric])
  show ?thesis
    unfolding sel_def [symmetric]
    using res c4 r(3,4) by (cases r4) (auto intro!: exI [of _ news])
qed

text \<open>
  Claim C10. \<^verbatim>\<open>importFromDirectory\<close> and \<^verbatim>\<open>importFromScan\<close> compare no candidate with the
  collection. In a directory import that gets as far as its loop (the directory is listed,
  it has a \<^verbatim>\<open>.pub\<close> file, the collection is loaded as an array \<open>ks\<close>), the collection
  afterwards is \<open>ks\<close> followed by one new record for every \<^verbatim>\<open>.pub\<close> file that can be read, in
  the order of the listing, with the file name as name and the trimmed content as key
  material, whatever \<open>ks\<close> holds; and the count printed on success is the number of these
  records. In a scan import that gets as far as its loop (the scan finds candidates, some
  are selected, the collection is loaded as an array \<open>ks\<close>), the collection afterwards is \<open>ks\<close>
  followed by one new record for every selected candidate, with its name and content, and
  the count printed on success is the number of selected candidates.
\<close>

theorem directory_and_scan_import_without_duplicate_check:
  "(\<forall>listing s1 ks s2 r s'.
      readdir w s dirPath = (Inr listing, s1) \<and> filter is_pub listing \<noteq> []
      \<and> loadKeys w s1 = (Inr (KeyArray ks), s2) \<and> importFromDirectory w s dirPath = (r, s')
      \<longrightarrow> (\<exists>news. keysCache s' = Some (KeyArray (ks @ news))
             \<and> map name news
                 = map Str (filter (\<lambda>f. readable w (files s) (path_join (os w) dirPath f))
                              (filter is_pub listing))
             \<and> map key news
                 = map (\<lambda>f. Str (trim (content_of (files s) (path_join (os w) dirPath f))))
                     (filter (\<lambda>f. readable w (files s) (path_join (os w) dirPath f))
                        (filter is_pub listing))
             \<and> (r = Inr () \<longrightarrow> last (console s') = ImportedKeys (length news))))
   \<and> (\<forall>scannedKeys s1 ks s2 r s'.
      scanCommonLocations w s = (Inr scannedKeys, s1) \<and> scannedKeys \<noteq> []
      \<and> prompt_select_keys (inquirer w) scannedKeys \<noteq> []
      \<and> loadKeys w s1 = (Inr (KeyArray ks), s2) \<and> importFromScan w s = (r, s')
      \<longrightarrow> (\<exists>news. keysCache s' = Some (KeyArray (ks @ news))
             \<and> map name news
                 = map (\<lambda>k. Str (scan_name k)) (prompt_select_keys (inquirer w) scannedKeys)
             \<and> map key news
                 = map (\<lambda>k. Str (scan_content k)) (prompt_select_keys (inquirer w) scannedKeys)
             \<and> (r = Inr () \<longrightarrow> last (console s')
                   = ImportedKeys (length (prompt_select_keys (inquirer w) scannedKeys)))))"
  using importFromDirectory_result [of w s dirPath] importFromScan_result [of w s]
  by (intro conjI allI impI) (elim conjE, blast)+


lemma demo_directory_simps:
  "keysCache demo_directory = Some (KeyArray [demo_key ''id-1'' ''a.pub'' ''ssh-rsa AAAA''])"
  "files demo_directory = [js ''/keys/a.pub'' \<mapsto> js ''ssh-rsa AAAA'',
                           js ''/keys/notes.txt'' \<mapsto> js ''notes'',
                           js ''/home/u/.ssh/a.pub'' \<mapsto> js ''ssh-rsa AAAA'']"
  "dirs demo_directory = (\<lambda>p. p = js ''/home/u/.ssh'')"
  by (simp_all add: demo_directory_def)

lemma demo_pub_files:
  "filter is_pub [js ''a.pub'', js ''notes.txt'', js ''b.pub''] = [js ''a.pub'', js ''b.pub'']"
  by (simp add: is_pub_def endsWith_def js_def)

lemma demo_trim: "trim (js ''ssh-rsa AAAA'') = js ''ssh-rsa AAAA''"
  by (simp add: trim_def is_js_whitespace_def js_def)

lemma demo_keys_readable:
  "readable demo_world (files demo_directory) (js ''/keys'' @ js ''/'' @ js ''a.pub'')"
  "\<not> readable demo_world (files demo_directory) (js ''/keys'' @ js ''/'' @ js ''b.pub'')"
  "content_of (files demo_directory) (js ''/keys'' @ js ''/'' @ js ''a.pub'') = js ''ssh-rsa AAAA''"
  by (simp_all add: readable_def content_of_def demo_directory_simps demo_simps js_def)

lemma demo_readdir:
  "readdir demo_world demo_directory (js ''/keys'')
     = (Inr [js ''a.pub'', js ''notes.txt'', js ''b.pub''],
        demo_directory\<lparr>fs_log := fs_log demo_directory @ [Readdir (js ''/keys'')]\<rparr>)"
  by (simp add: readdir_def demo_simps)

lemma demo_scan:
  "fst (scanCommonLocations demo_world demo_directory)
     = Inr [\<lparr>scan_name = js ''a.pub'', scan_path = js ''/home/u/.ssh/a.pub'',
             scan_content = js ''ssh-rsa AAAA'', scan_type = js ''RSA''\<rparr>]"
  "keysCache (snd (scanCommonLocations demo_world demo_directory)) = keysCache demo_directory"
  by (simp_all add: scanCommonLocations_def getCommonSSHLocations_def existsSync_def readdir_def
      readFile_def is_pub_def endsWith_def trim_def is_js_whitespace_def detectKeyType_def
      demo_directory_simps demo_simps Let_def js_def)

text \<open>The theorem in the example environment: the store already holds a key named
  \<^verbatim>\<open>a.pub\<close> with the content of the file \<^verbatim>\<open>a.pub\<close>, and both imports append a second record
  with that name and that key material.\<close>

theorem directory_and_scan_import_without_duplicate_check_witness:
  "(\<exists>news. keysCache (snd (importFromDirectory demo_world demo_directory (js ''/keys'')))
             = Some (KeyArray ([demo_key ''id-1'' ''a.pub'' ''ssh-rsa AAAA''] @ news))
          \<and> map name news = [Str (js ''a.pub'')] \<and> map key news = [Str (js ''ssh-rsa AAAA'')])
   \<and> (\<exists>news. keysCache (snd (importFromScan demo_world demo_directory))
             = Some (KeyArray ([demo_key ''id-1'' ''a.pub'' ''ssh-rsa AAAA''] @ news))
          \<and> map name news = [Str (js ''a.pub'')] \<and> map key news = [Str (js ''ssh-rsa AAAA'')])"
proof -
  let ?ks = "[demo_key ''id-1'' ''a.pub'' ''ssh-rsa AAAA'']"
  let ?s1 = "demo_directory\<lparr>fs_log := fs_log demo_directory @ [Readdir (js ''/keys'')]\<rparr>"
  let ?k = "\<lparr>scan_name = js ''a.pub'', scan_path = js ''/home/u/.ssh/a.pub'',
             scan_content = js ''ssh-rsa AAAA'', scan_type = js ''RSA''\<rparr>"
  let ?t1 = "snd (scanCommonLocations demo_world demo_directory)"
  note inst = directory_and_scan_import_without_duplicate_check
               [of demo_world demo_directory "js ''/keys''"]
  have ld: "loadKeys demo_world ?s1 = (Inr (KeyArray ?ks), ?s1)"
    by (rule loadKeys_hit) (simp add: demo_directory_simps)
  have pf: "filter is_pub [js ''a.pub'', js ''notes.txt'', js ''b.pub''] \<noteq> []"
    unfolding demo_pub_files by simp
  have run: "importFromDirectory demo_world demo_directory (js ''/keys'')
      = (fst (importFromDirectory demo_world demo_directory (js ''/keys'')),
         snd (importFromDirectory demo_world demo_directory (js ''/keys'')))"
    by simp
  have dir: "\<exists>news. keysCache (snd (importFromDirectory demo_world demo_directory (js ''/keys'')))
             = Some (KeyArray (?ks @ news))
          \<and> map name news = [Str (js ''a.pub'')] \<and> map key news = [Str (js ''ssh-rsa AAAA'')]"
    using inst [THEN conjunct1, rule_format, OF conjI [OF demo_readdir conjI [OF pf conjI [OF ld run]]]]
    unfolding demo_pub_files
    by (simp add: demo_keys_readable demo_trim demo_simps)
       (erule exE, rule exI, (erule conjE)+, intro conjI, assumption+)
  have sc: "scanCommonLocations demo_world demo_directory = (Inr [?k], ?t1)"
    using demo_scan(1) by (simp add: prod_eq_iff)
  have ld2: "loadKeys demo_world ?t1 = (Inr (KeyArray ?ks), ?t1)"
    by (rule loadKeys_hit) (simp add: demo_scan(2) demo_directory_simps)
  have ne: "[?k] \<noteq> []" "prompt_select_keys (inquirer demo_world) [?k] \<noteq> []"
    by (simp_all add: demo_simps demo_prompts_def)
  have run2: "importFromScan demo_world demo_directory
      = (fst (importFromScan demo_world demo_directory),
         snd (importFromScan demo_world demo_directory))"
    by simp
  have scan: "\<exists>news. keysCache (snd (importFromScan demo_world demo_directory))
             = Some (KeyArray (?ks @ news))
          \<and> map name news = [Str (js ''a.pub'')] \<and> map key news = [Str (js ''ssh-rsa AAAA'')]"
    using inst [THEN conjunct2, rule_format,
        OF conjI [OF sc conjI [OF ne(1) conjI [OF ne(2) conjI [OF ld2 run2]]]]]
    by (simp add: demo_simps demo_prompts_def)
       (erule exE, rule exI, (erule conjE)+, intro conjI, assumption+)
  show ?thesis by (rule conjI [OF dir scan])
qed

section \<open>Key derivation: what is hashed\<close>

text \<open>
  \<^verbatim>\<open>deriveKeyFromPassword\<close> and \<^verbatim>\<open>getMachineKey\<close> hash the UTF-8 bytes of their input followed
  by \<^verbatim>\<open>'ssh-kim-password-salt'\<close> and by \<^verbatim>\<open>'ssh-kim-machine-key'\<close>. Both suffixes begin with an
  ASCII letter, so their bytes follow those of the input whatever its last code unit is, and
  the two byte strings differ for one and the same input. What the digests of these byte
  strings are is a matter of the hash function, which the model takes from its environment.
\<close>

lemma utf8_encode_append:
  "x \<noteq> [] \<Longrightarrow> \<not> is_low_surrogate (hd x) \<Longrightarrow>
     utf8_encode (p @ x) = utf8_encode p @ utf8_encode x"
proof (induction p rule: utf8_encode.induct)
  case 1
  then show ?case by simp
next
  case (2 c cs)
  show ?case
  proof (cases cs)
    case Nil
    then show ?thesis using "2.prems" by (cases x) (simp_all)
  next
    case (Cons d ds)
    then show ?thesis using 2 by (simp split: list.splits)
  qed
qed

lemma suffix_units:
  "\<not> is_low_surrogate (hd (js ''ssh-kim-password-salt''))"
  "\<not> is_low_surrogate (hd (js ''ssh-kim-machine-key''))"
  by (simp_all add: js_def is_low_surrogate_def)

lemma suffix_lengths:
  "length (utf8_encode (js ''ssh-kim-password-salt'')) = 21"
  "length (utf8_encode (js ''ssh-kim-machine-key'')) = 19"
  by (simp_all add: js_def is_high_surrogate_def is_low_surrogate_def utf8_of_cp_def)

lemma derivation_inputs_differ:
  "utf8_encode (p @ js ''ssh-kim-password-salt'') \<noteq> utf8_encode (p @ js ''ssh-kim-machine-key'')"
proof
  assume "utf8_encode (p @ js ''ssh-kim-password-salt'') = utf8_encode (p @ js ''ssh-kim-machine-key'')"
  then have "utf8_encode (js ''ssh-kim-password-salt'') = utf8_encode (js ''ssh-kim-machine-key'')"
    using suffix_units by (simp add: utf8_encode_append)
  then have "length (utf8_encode (js ''ssh-kim-password-salt''))
      = length (utf8_encode (js ''ssh-kim-machine-key''))" by (rule arg_cong)
  then show False unfolding suffix_lengths by simp
qed

end
